theory Spec2Isabelle
  imports Main "HOL-Library.Word"
begin

section \<open>Data model of package sessions\<close>

text \<open>
  The package keeps its sessions in Go objects that are shared by pointer: a registry
  hands out \<^verbatim>\<open>*Session\<close> values and later writes through them. Session objects
  therefore live in a heap (a list, the address of an object is its index, allocation
  appends), and a possibly-nil pointer is an \<open>addr option\<close>. An interface value
  (\<^verbatim>\<open>Store\<close>, \<^verbatim>\<open>error\<close>, \<^verbatim>\<open>interface{}\<close>) that may be nil is an option
  as well. A Go map may be nil: reading a nil map finds nothing, deleting from it does
  nothing, assigning to it panics. A panic of the Go runtime is a \<open>fault\<close> value.
\<close>

type_synonym addr = nat
type_synonym raddr = nat
type_synonym Store = nat
type_synonym RequestCtx = nat
type_synonym time = int

text \<open>Go's \<^verbatim>\<open>int\<close> on a 64-bit platform; \<^verbatim>\<open>time.Duration\<close> is an \<^verbatim>\<open>int64\<close>.\<close>

type_synonym go_int = "64 word"
type_synonym Duration = "64 word"

datatype fault =
    NilDereference
  | TypeAssertion
  | NilMapAssignment
  | DanglingPointer

text \<open>
  A dynamically typed value (\<^verbatim>\<open>interface{}\<close>): \<open>VSlice\<close> is a
  \<^verbatim>\<open>[]interface{}\<close>, \<open>VNil\<close> the nil interface, \<open>VOther\<close> a value of any
  other dynamic type, named by a description.
\<close>

datatype val =
    VNil
  | VBool bool
  | VInt int
  | VString string
  | VSlice "val list"
  | VOther string

text \<open>
  Error values, one constructor for each \<^verbatim>\<open>fmt.Errorf\<close> of the package:
  \<^item> \<open>InvalidCookieName n\<close>: \<^verbatim>\<open>"sessions: invalid character in cookie name: %s"\<close>;
  \<^item> \<open>MissingStore n\<close>: \<^verbatim>\<open>"sessions: missing store for session %q"\<close>;
  \<^item> \<open>SaveError n err\<close>: \<^verbatim>\<open>"sessions: error saving session %q -- %v"\<close>;
  \<^item> \<open>StoreError m\<close>: an error made by a store, with its message;
  \<^item> \<open>MultiError es\<close>: the type \<^verbatim>\<open>MultiError []error\<close>, whose entries may be nil.
\<close>

datatype error =
    InvalidCookieName string
  | MissingStore string
  | SaveError string error
  | StoreError string
  | MultiError "error option list"

record Options =
  Path :: string
  Domain :: string
  MaxAge :: go_int
  Secure :: bool
  HttpOnly :: bool

record Session =
  ID :: string
  Values :: "(val \<rightharpoonup> val) option"
  Options :: "Options option"
  IsNew :: bool
  store :: "Store option"
  name :: string

type_synonym heap = "Session list"

record sessionInfo =
  s :: "addr option"
  e :: "error option"

record Registry =
  ctx :: "RequestCtx option"
  sessions :: "(string \<rightharpoonup> sessionInfo) option"

text \<open>
  The cookie of fasthttp, with the attributes \<^verbatim>\<open>NewCookie\<close> sets: each field is
  what the cookie holds after the call of its setter; an unset expiry is \<open>None\<close>.
\<close>

record Cookie =
  cookie_key :: string
  cookie_value :: string
  cookie_path :: string
  cookie_domain :: string
  cookie_httpOnly :: bool
  cookie_secure :: bool
  cookie_expire :: "time option"

subsection \<open>Go maps and the heap\<close>

definition map_lookup :: "('k \<rightharpoonup> 'v) option \<Rightarrow> 'k \<Rightarrow> 'v option" where
  "map_lookup m k = (case m of None \<Rightarrow> None | Some f \<Rightarrow> f k)"

definition map_delete :: "('k \<rightharpoonup> 'v) option \<Rightarrow> 'k \<Rightarrow> ('k \<rightharpoonup> 'v) option" where
  "map_delete m k = (case m of None \<Rightarrow> None | Some f \<Rightarrow> Some (f(k := None)))"

definition map_assign :: "('k \<rightharpoonup> 'v) option \<Rightarrow> 'k \<Rightarrow> 'v \<Rightarrow> fault + ('k \<rightharpoonup> 'v) option" where
  "map_assign m k v = (case m of None \<Rightarrow> Inl NilMapAssignment | Some f \<Rightarrow> Inr (Some (f(k \<mapsto> v))))"

definition deref :: "heap \<Rightarrow> addr \<Rightarrow> Session option" where
  "deref h a = (if a < length h then Some (h ! a) else None)"

section \<open>Session\<close>

definition flashesKey :: string where
  "flashesKey = ''_flash''"

definition NewSession :: "Store option \<Rightarrow> string \<Rightarrow> heap \<Rightarrow> addr \<times> heap" where
  "NewSession st nm h =
     (length h,
      h @ [\<lparr>ID = [], Values = Some Map.empty, Options = None, IsNew = False,
            store = st, name = nm\<rparr>])"

text \<open>The key of a flash operation: the first variadic argument, or the default.\<close>

definition flash_key :: "string list \<Rightarrow> val" where
  "flash_key vars = VString (if length vars > 0 then vars ! 0 else flashesKey)"

text \<open>The type assertion \<^verbatim>\<open>v.([]interface{})\<close>, which panics on any other dynamic type.\<close>

definition assert_slice :: "val \<Rightarrow> fault + val list" where
  "assert_slice v = (case v of VSlice fs \<Rightarrow> Inr fs | _ \<Rightarrow> Inl TypeAssertion)"

text \<open>
  \<^verbatim>\<open>Flashes\<close> deletes the key before it asserts the type, so the session it leaves
  behind is returned beside the outcome. A nil slice and an empty one are both \<open>[]\<close>.
\<close>

definition Flashes :: "Session \<Rightarrow> string list \<Rightarrow> (fault + val list) \<times> Session" where
  "Flashes sess vars =
     (let key = flash_key vars in
      case map_lookup (Values sess) key of
        Some v \<Rightarrow> (assert_slice v, sess\<lparr>Values := map_delete (Values sess) key\<rparr>)
      | None \<Rightarrow> (Inr [], sess))"

definition AddFlash :: "Session \<Rightarrow> val \<Rightarrow> string list \<Rightarrow> fault + Session" where
  "AddFlash sess v vars =
     (let key = flash_key vars in
      case (case map_lookup (Values sess) key of
              Some old \<Rightarrow> assert_slice old
            | None \<Rightarrow> Inr []) of
        Inl f \<Rightarrow> Inl f
      | Inr flashes \<Rightarrow>
          (case map_assign (Values sess) key (VSlice (flashes @ [v])) of
             Inl f \<Rightarrow> Inl f
           | Inr m \<Rightarrow> Inr (sess\<lparr>Values := m\<rparr>)))"

text \<open>Calling \<^verbatim>\<open>AddFlash\<close> once for each value of a list, in order.\<close>

fun AddFlash_each :: "Session \<Rightarrow> val list \<Rightarrow> string list \<Rightarrow> fault + Session" where
  "AddFlash_each sess [] vars = Inr sess"
| "AddFlash_each sess (v # vs) vars =
     (case AddFlash sess v vars of
        Inl f \<Rightarrow> Inl f
      | Inr sess' \<Rightarrow> AddFlash_each sess' vs vars)"

section \<open>MultiError\<close>

text \<open>\<^verbatim>\<open>%d\<close> of a non-negative number.\<close>

definition digit_char :: "nat \<Rightarrow> char" where
  "digit_char d = ''0123456789'' ! d"

function decimal :: "nat \<Rightarrow> string" where
  "decimal n = (if n < 10 then [digit_char n] else decimal (n div 10) @ [digit_char (n mod 10)])"
  by pat_completeness auto
termination
  by (relation "measure id") auto

declare decimal.simps [simp del]

text \<open>
  The loop of \<^verbatim>\<open>MultiError.Error\<close> over the entries, with its two variables
  \<open>(s, n)\<close>. The method \<^verbatim>\<open>Error()\<close> of the entries is the parameter \<open>msg\<close>.
\<close>

fun count_errors :: "('e \<Rightarrow> string) \<Rightarrow> 'e option list \<Rightarrow> string \<times> nat \<Rightarrow> string \<times> nat" where
  "count_errors msg [] (str, n) = (str, n)"
| "count_errors msg (None # m) (str, n) = count_errors msg m (str, n)"
| "count_errors msg (Some err # m) (str, n) =
     count_errors msg m (if n = 0 then msg err else str, n + 1)"

definition MultiError_Error :: "('e \<Rightarrow> string) \<Rightarrow> 'e option list \<Rightarrow> string" where
  "MultiError_Error msg m =
     (case count_errors msg m ([], 0) of (str, n) \<Rightarrow>
        if n = 0 then ''(0 errors)''
        else if n = 1 then str
        else if n = 2 then str @ '' (and 1 other error)''
        else str @ '' (and '' @ decimal (n - 1) @ '' other errors)'')"

section \<open>NewCookie\<close>

text \<open>
  Times are nanoseconds since the Unix epoch. \<^verbatim>\<open>time.Second\<close> is \<open>10^9\<close>;
  the product \<^verbatim>\<open>time.Duration(options.MaxAge) * time.Second\<close> is an \<^verbatim>\<open>int64\<close>
  product and wraps around. \<^verbatim>\<open>time.Now()\<close> is the parameter \<open>now\<close>.
\<close>

definition Second :: Duration where
  "Second = 1000000000"

definition Time_Add :: "time \<Rightarrow> Duration \<Rightarrow> time" where
  "Time_Add t d = t + sint d"

definition Unix :: "int \<Rightarrow> int \<Rightarrow> time" where
  "Unix sec nsec = sec * 1000000000 + nsec"

text \<open>
  The setters of \<^verbatim>\<open>fasthttp.Cookie\<close> are library code. What a string setter stores
  is a parameter: \<open>SetPath lib p\<close> is the path the cookie holds after
  \<^verbatim>\<open>cookie.SetPath(p)\<close> (fasthttp stores the normalised path, not the argument), and
  likewise for \<^verbatim>\<open>SetKey\<close>, \<^verbatim>\<open>SetValue\<close> and \<^verbatim>\<open>SetDomain\<close>.
  \<^verbatim>\<open>SetHTTPOnly\<close>, \<^verbatim>\<open>SetSecure\<close> and \<^verbatim>\<open>SetExpire\<close> assign their
  argument to the field.
\<close>

record fasthttp =
  SetKey :: "string \<Rightarrow> string"
  SetValue :: "string \<Rightarrow> string"
  SetPath :: "string \<Rightarrow> string"
  SetDomain :: "string \<Rightarrow> string"

definition NewCookie ::
  "fasthttp \<Rightarrow> time \<Rightarrow> string \<Rightarrow> string \<Rightarrow> Options option \<Rightarrow> fault + Cookie" where
  "NewCookie lib now nm v options =
     (case options of
        None \<Rightarrow> Inl NilDereference
      | Some opts \<Rightarrow>
          (let cookie = \<lparr>cookie_key = SetKey lib nm, cookie_value = SetValue lib v,
                          cookie_path = SetPath lib (Path opts),
                          cookie_domain = SetDomain lib (Domain opts),
                          cookie_httpOnly = HttpOnly opts,
                          cookie_secure = Secure opts, cookie_expire = None\<rparr>
           in if 0 <s MaxAge opts then
                (let d = MaxAge opts * Second
                 in Inr (cookie\<lparr>cookie_expire := Some (Time_Add now d)\<rparr>))
              else if MaxAge opts <s 0 then
                Inr (cookie\<lparr>cookie_expire := Some (Unix 1 0)\<rparr>)
              else Inr cookie))"

section \<open>Stores and the world\<close>

text \<open>
  \<^verbatim>\<open>Store\<close> is an interface; its implementations are not part of the verified code.
  Their methods are parameters: given the heap of sessions, \<open>Store_New\<close> returns a
  session pointer, an error and the heap it leaves, \<open>Store_Save\<close> an error and the heap
  it leaves. The cookie-name predicate \<^verbatim>\<open>isCookieNameValid\<close> is a parameter too.
  Every call of a store method is logged in \<open>calls\<close>, so that "the store is not called"
  can be stated.
\<close>

datatype call =
    CallNew Store "RequestCtx option" string
  | CallSave Store "RequestCtx option" addr

record world =
  heap :: heap
  calls :: "call list"

record env =
  isCookieNameValid :: "string \<Rightarrow> bool"
  Store_New :: "Store \<Rightarrow> RequestCtx option \<Rightarrow> string \<Rightarrow> heap \<Rightarrow> (addr option \<times> error option) \<times> heap"
  Store_Save :: "Store \<Rightarrow> RequestCtx option \<Rightarrow> addr \<Rightarrow> heap \<Rightarrow> error option \<times> heap"

text \<open>
  A field assignment through a session pointer. In Go a non-nil pointer always points to
  a live object; the model is total and marks the other case \<open>DanglingPointer\<close>.
\<close>

definition heap_write :: "addr option \<Rightarrow> (Session \<Rightarrow> Session) \<Rightarrow> heap \<Rightarrow> fault + heap" where
  "heap_write p f h =
     (case p of
        None \<Rightarrow> Inl NilDereference
      | Some a \<Rightarrow> if a < length h then Inr (h[a := f (h ! a)]) else Inl DanglingPointer)"

text \<open>\<^verbatim>\<open>Session.Save\<close>: \<^verbatim>\<open>return s.store.Save(ctx, s)\<close>.\<close>

definition Session_Save :: "env \<Rightarrow> addr \<Rightarrow> RequestCtx option \<Rightarrow> world \<Rightarrow> (fault + error option) \<times> world" where
  "Session_Save env a c w =
     (case deref (heap w) a of
        None \<Rightarrow> (Inl DanglingPointer, w)
      | Some sess \<Rightarrow>
          (case store sess of
             None \<Rightarrow> (Inl NilDereference, w)
           | Some st \<Rightarrow>
               (case Store_Save env st c a (heap w) of
                  (err, h') \<Rightarrow> (Inr err, \<lparr>heap = h', calls = calls w @ [CallSave st c a]\<rparr>))))"

section \<open>Registry\<close>

text \<open>
  The two branches of \<^verbatim>\<open>Registry.Get\<close> after the name check: the entry found in
  \<^verbatim>\<open>r.sessions\<close>, or the call of \<^verbatim>\<open>store.New\<close>, the assignment of the
  session's name and the new entry.
\<close>

definition Get_entry ::
  "env \<Rightarrow> Registry \<Rightarrow> Store option \<Rightarrow> string \<Rightarrow> world
     \<Rightarrow> (fault + (addr option \<times> error option)) \<times> Registry \<times> world" where
  "Get_entry env r st nm w =
     (case map_lookup (sessions r) nm of
        Some info \<Rightarrow> (Inr (s info, e info), r, w)
      | None \<Rightarrow>
          (case st of
             None \<Rightarrow> (Inl NilDereference, r, w)
           | Some sto \<Rightarrow>
               (case Store_New env sto (ctx r) nm (heap w) of
                  ((session, err), h1) \<Rightarrow>
                    (let w1 = \<lparr>heap = h1, calls = calls w @ [CallNew sto (ctx r) nm]\<rparr> in
                     case heap_write session (\<lambda>x. x\<lparr>name := nm\<rparr>) h1 of
                       Inl f \<Rightarrow> (Inl f, r, w1)
                     | Inr h2 \<Rightarrow>
                         (case map_assign (sessions r) nm \<lparr>s = session, e = err\<rparr> of
                            Inl f \<Rightarrow> (Inl f, r, w1\<lparr>heap := h2\<rparr>)
                          | Inr m \<Rightarrow> (Inr (session, err), r\<lparr>sessions := m\<rparr>, w1\<lparr>heap := h2\<rparr>))))))"

definition Registry_Get ::
  "env \<Rightarrow> Registry \<Rightarrow> Store option \<Rightarrow> string \<Rightarrow> world
     \<Rightarrow> (fault + (addr option \<times> error option)) \<times> Registry \<times> world" where
  "Registry_Get env r st nm w =
     (if \<not> isCookieNameValid env nm then
        (Inr (None, Some (InvalidCookieName nm)), r, w)
      else
        (case Get_entry env r st nm w of
           (Inl f, r', w') \<Rightarrow> (Inl f, r', w')
         | (Inr (session, err), r', w') \<Rightarrow>
             (case heap_write session (\<lambda>x. x\<lparr>store := st\<rparr>) (heap w') of
                Inl f \<Rightarrow> (Inl f, r', w')
              | Inr h' \<Rightarrow> (Inr (session, err), r', w'\<lparr>heap := h'\<rparr>))))"

text \<open>A handler's lookups one after the other on the same registry; a panic ends the run.\<close>

fun Gets ::
  "env \<Rightarrow> Registry \<Rightarrow> (Store option \<times> string) list \<Rightarrow> world
     \<Rightarrow> fault + ((addr option \<times> error option) list \<times> Registry \<times> world)" where
  "Gets env r [] w = Inr ([], r, w)"
| "Gets env r ((st, nm) # ops) w =
     (case Registry_Get env r st nm w of
        (Inl f, r', w') \<Rightarrow> Inl f
      | (Inr out, r', w') \<Rightarrow>
          (case Gets env r' ops w' of
             Inl f \<Rightarrow> Inl f
           | Inr (outs, r'', w'') \<Rightarrow> Inr (out # outs, r'', w'')))"

text \<open>
  The loop of \<^verbatim>\<open>Registry.Save\<close>. Go visits the keys of a map in an order of the
  runtime's choosing: the order is the parameter \<open>order\<close>, a list of the keys. A name
  that is not a key is skipped (\<^verbatim>\<open>range\<close> yields keys only).
\<close>

fun save_loop ::
  "env \<Rightarrow> Registry \<Rightarrow> string list \<Rightarrow> error option list \<Rightarrow> world
     \<Rightarrow> (fault + error option list) \<times> world" where
  "save_loop env r [] errMulti w = (Inr errMulti, w)"
| "save_loop env r (nm # rest) errMulti w =
     (case map_lookup (sessions r) nm of
        None \<Rightarrow> save_loop env r rest errMulti w
      | Some info \<Rightarrow>
          (case s info of
             None \<Rightarrow> (Inl NilDereference, w)
           | Some a \<Rightarrow>
               (case deref (heap w) a of
                  None \<Rightarrow> (Inl DanglingPointer, w)
                | Some session \<Rightarrow>
                    (case store session of
                       None \<Rightarrow> save_loop env r rest (errMulti @ [Some (MissingStore nm)]) w
                     | Some st \<Rightarrow>
                         (case Store_Save env st (ctx r) a (heap w) of
                            (err, h') \<Rightarrow>
                              (let w' = \<lparr>heap = h', calls = calls w @ [CallSave st (ctx r) a]\<rparr> in
                               case err of
                                 None \<Rightarrow> save_loop env r rest errMulti w'
                               | Some x \<Rightarrow>
                                   save_loop env r rest (errMulti @ [Some (SaveError nm x)]) w'))))))"

definition Registry_Save ::
  "env \<Rightarrow> Registry \<Rightarrow> string list \<Rightarrow> world \<Rightarrow> (fault + error option) \<times> world" where
  "Registry_Save env r order w =
     (case save_loop env r order [] w of
        (Inl f, w') \<Rightarrow> (Inl f, w')
      | (Inr errMulti, w') \<Rightarrow>
          (if errMulti \<noteq> [] then (Inr (Some (MultiError errMulti)), w') else (Inr None, w')))"

section \<open>The registry pool\<close>

text \<open>
  The package-level state: the \<^verbatim>\<open>Registry\<close> objects (a heap, as for sessions), the
  objects \<^verbatim>\<open>registryPool\<close> holds, and the registry attached to each request context.
\<close>

record pkg =
  registries :: "Registry list"
  registryPool :: "raddr list"
  attached :: "RequestCtx option \<rightharpoonup> raddr"

text \<open>
  Modelled from the spec: the functions \<^verbatim>\<open>Get(ctx)\<close> and \<^verbatim>\<open>Set(ctx, registry)\<close>
  that \<^verbatim>\<open>GetRegistry\<close> calls are not in the sources at hand. The spec asks of the
  request context that it supports "attaching/retrieving one opaque value per request
  (used to stash the Registry)".
\<close>

definition Get :: "pkg \<Rightarrow> RequestCtx option \<Rightarrow> raddr option" where
  "Get g c = attached g c"

definition Set :: "RequestCtx option \<Rightarrow> raddr \<Rightarrow> pkg \<Rightarrow> pkg" where
  "Set c r g = g\<lparr>attached := (attached g)(c \<mapsto> r)\<rparr>"

text \<open>
  \<^verbatim>\<open>sync.Pool\<close>: \<^verbatim>\<open>Get\<close> hands out one of the pooled objects, of the runtime's
  choosing (\<open>pick = Some i\<close>), or makes one with \<^verbatim>\<open>New\<close>, here \<^verbatim>\<open>&Registry{}\<close>;
  \<^verbatim>\<open>Put\<close> adds an object.
\<close>

definition Pool_New :: "pkg \<Rightarrow> raddr \<times> pkg" where
  "Pool_New g =
     (length (registries g),
      g\<lparr>registries := registries g @ [\<lparr>ctx = None, sessions = None\<rparr>]\<rparr>)"

definition Pool_Get :: "nat option \<Rightarrow> pkg \<Rightarrow> raddr \<times> pkg" where
  "Pool_Get pick g =
     (case pick of
        None \<Rightarrow> Pool_New g
      | Some i \<Rightarrow>
          if i < length (registryPool g) then
            (registryPool g ! i,
             g\<lparr>registryPool := take i (registryPool g) @ drop (Suc i) (registryPool g)\<rparr>)
          else Pool_New g)"

definition Pool_Put :: "raddr \<Rightarrow> pkg \<Rightarrow> pkg" where
  "Pool_Put r g = g\<lparr>registryPool := r # registryPool g\<rparr>"

definition registry_write :: "raddr \<Rightarrow> (Registry \<Rightarrow> Registry) \<Rightarrow> pkg \<Rightarrow> fault + pkg" where
  "registry_write r f g =
     (if r < length (registries g) then Inr (g\<lparr>registries := (registries g)[r := f (registries g ! r)]\<rparr>)
      else Inl DanglingPointer)"

definition GetRegistry :: "RequestCtx option \<Rightarrow> nat option \<Rightarrow> pkg \<Rightarrow> fault + (raddr \<times> pkg)" where
  "GetRegistry c pick g =
     (case Get g c of
        Some registry \<Rightarrow> Inr (registry, g)
      | None \<Rightarrow>
          (case Pool_Get pick g of
             (registry, g1) \<Rightarrow>
               (case registry_write registry (\<lambda>x. x\<lparr>ctx := c, sessions := Some Map.empty\<rparr>) g1 of
                  Inl f \<Rightarrow> Inl f
                | Inr g2 \<Rightarrow> Inr (registry, Set c registry g2))))"

definition close :: "raddr \<Rightarrow> pkg \<Rightarrow> fault + pkg" where
  "close r g =
     (case registry_write r (\<lambda>x. x\<lparr>ctx := None\<rparr>) g of
        Inl f \<Rightarrow> Inl f
      | Inr g1 \<Rightarrow> Inr (Pool_Put r g1))"

section \<open>Specification-side definitions and example inputs\<close>

text \<open>The messages of the non-nil entries of a \<^verbatim>\<open>MultiError\<close>, in order.\<close>

definition messages :: "('e \<Rightarrow> string) \<Rightarrow> 'e option list \<Rightarrow> string list" where
  "messages msg m = List.map_filter (map_option msg) m"

text \<open>The flash sequence a session holds under a key: empty when the key is absent.\<close>

definition flash_slot :: "Session \<Rightarrow> string list \<Rightarrow> val list option" where
  "flash_slot sess vars =
     (case map_lookup (Values sess) (flash_key vars) of
        None \<Rightarrow> Some []
      | Some (VSlice fs) \<Rightarrow> Some fs
      | Some _ \<Rightarrow> None)"

text \<open>
  Modelled from the spec: \<^verbatim>\<open>isCookieNameValid\<close> is not in the sources at hand. The
  spec calls it "a cookie-name-legality predicate (no control characters, no separator
  characters disallowed by cookie-name syntax)". The theorems below hold for any
  predicate; this one is the predicate of the examples.
\<close>

definition is_control :: "char \<Rightarrow> bool" where
  "is_control c = ((of_char c :: nat) < 32 \<or> (of_char c :: nat) = 127)"

definition is_separator :: "char \<Rightarrow> bool" where
  "is_separator c =
     (c \<in> set ''()<>@,;:/[]?={} '' \<or> c = CHR 0x22 \<or> c = CHR 0x5C \<or> c = CHR 0x09)"

definition cookie_name_legal :: "string \<Rightarrow> bool" where
  "cookie_name_legal nm = list_all (\<lambda>c. \<not> is_control c \<and> \<not> is_separator c) nm"

text \<open>
  Example stores: \<^verbatim>\<open>New\<close> makes the session with \<^verbatim>\<open>NewSession\<close>, as the stores
  of the package do; store 2 returns the session with an error, and its \<^verbatim>\<open>Save\<close>
  fails.
\<close>

definition example_New ::
  "Store \<Rightarrow> RequestCtx option \<Rightarrow> string \<Rightarrow> heap \<Rightarrow> (addr option \<times> error option) \<times> heap" where
  "example_New st c nm h =
     (case NewSession (Some st) nm h of
        (a, h') \<Rightarrow>
          ((Some a, if st = 2 then Some (StoreError ''securecookie: the value is not valid'') else None),
           h'))"

definition example_Save ::
  "Store \<Rightarrow> RequestCtx option \<Rightarrow> addr \<Rightarrow> heap \<Rightarrow> error option \<times> heap" where
  "example_Save st c a h = (if st = 2 then Some (StoreError ''disk full'') else None, h)"

definition example_env :: env where
  "example_env =
     \<lparr>isCookieNameValid = cookie_name_legal, Store_New = example_New, Store_Save = example_Save\<rparr>"

text \<open>The options of the cookie examples, by their \<^verbatim>\<open>MaxAge\<close>.\<close>

definition example_options :: "go_int \<Rightarrow> Options" where
  "example_options age =
     \<lparr>Path = ''/'', Domain = ''example.org'', MaxAge = age, Secure = True, HttpOnly = False\<rparr>"

text \<open>
  The setters of the cookie examples. \<^verbatim>\<open>SetPath\<close> puts the slash in front of a
  path that does not start with one, the first step of fasthttp's normalisation: the
  empty path is stored as \<^verbatim>\<open>"/"\<close>. The examples have no path with a dot segment or
  a double slash, and no semicolon in a value or domain, so the other steps change
  nothing there.
\<close>

definition example_fasthttp :: fasthttp where
  "example_fasthttp =
     \<lparr>SetKey = (\<lambda>k. k), SetValue = (\<lambda>x. x),
      SetPath = (\<lambda>p. if p = [] \<or> hd p \<noteq> CHR ''/'' then CHR ''/'' # p else p),
      SetDomain = (\<lambda>d. d)\<rparr>"

text \<open>The zero value of \<^verbatim>\<open>Options\<close>, but for a \<^verbatim>\<open>MaxAge\<close> of an hour.\<close>

definition example_options_no_path :: Options where
  "example_options_no_path =
     \<lparr>Path = [], Domain = [], MaxAge = 3600, Secure = False, HttpOnly = False\<rparr>"

text \<open>A session with a value of the application and no flash messages.\<close>

definition example_session :: Session where
  "example_session =
     \<lparr>ID = ''id1'', Values = Some [VString ''user'' \<mapsto> VString ''alice''], Options = None,
      IsNew = False, store = Some 1, name = ''sid''\<rparr>"

subsection \<open>Assumptions on stores and registries\<close>

text \<open>
  The entries of a registry point to live sessions. \<^verbatim>\<open>Registry.Get\<close> is the only
  code that adds an entry, and it adds one only after it has written through the pointer.
\<close>

definition registry_ok :: "Registry \<Rightarrow> heap \<Rightarrow> bool" where
  "registry_ok r h =
     (\<forall>nm info. map_lookup (sessions r) nm = Some info \<longrightarrow> (\<exists>a. s info = Some a \<and> a < length h))"

text \<open>
  The contract of \<^verbatim>\<open>Store.New\<close>: it returns a session it has just made (with
  \<^verbatim>\<open>NewSession\<close>, in the stores of the package), also beside an error.
\<close>

definition New_allocates :: "env \<Rightarrow> bool" where
  "New_allocates env =
     (\<forall>st c nm h. \<exists>a err h'. Store_New env st c nm h = ((Some a, err), h') \<and>
                     length h \<le> a \<and> a < length h')"

text \<open>A store's \<^verbatim>\<open>Save\<close> that leaves the session objects as they are.\<close>

definition Save_pure :: "env \<Rightarrow> bool" where
  "Save_pure env = (\<forall>st c a h. snd (Store_Save env st c a h) = h)"

text \<open>The number of calls of \<^verbatim>\<open>store.New\<close> for a name in a log.\<close>

definition is_New_for :: "string \<Rightarrow> call \<Rightarrow> bool" where
  "is_New_for nm c = (case c of CallNew st x n \<Rightarrow> n = nm | CallSave st x a \<Rightarrow> False)"

definition New_calls :: "string \<Rightarrow> call list \<Rightarrow> nat" where
  "New_calls nm cs = length (filter (is_New_for nm) cs)"

text \<open>
  The invariant of a registry once a name is recorded: the entry of the name is the
  recorded pair, and no other name has the same session.
\<close>

definition cached :: "string \<Rightarrow> addr \<Rightarrow> error option \<Rightarrow> Registry \<Rightarrow> heap \<Rightarrow> bool" where
  "cached nm a err r h =
     (registry_ok r h \<and> map_lookup (sessions r) nm = Some \<lparr>s = Some a, e = err\<rparr> \<and>
      (\<forall>k info. k \<noteq> nm \<and> map_lookup (sessions r) k = Some info \<longrightarrow> s info \<noteq> Some a))"

text \<open>
  What the spec asks of \<^verbatim>\<open>Registry.Save\<close> for one registered name: "if the
  session's store reference is nil, record a "missing store" error for that name;
  otherwise call store.Save(context, session) and record any error, tagged with the
  session name". \<open>save_error\<close> is the error recorded for the name, \<open>save_call\<close> the
  call of the store made for it.
\<close>

definition save_error :: "env \<Rightarrow> Registry \<Rightarrow> heap \<Rightarrow> string \<Rightarrow> error option" where
  "save_error env r h nm =
     (case map_lookup (sessions r) nm of
        None \<Rightarrow> None
      | Some info \<Rightarrow>
          (case s info of
             None \<Rightarrow> None
           | Some a \<Rightarrow>
               (case deref h a of
                  None \<Rightarrow> None
                | Some session \<Rightarrow>
                    (case store session of
                       None \<Rightarrow> Some (MissingStore nm)
                     | Some st \<Rightarrow> map_option (SaveError nm) (fst (Store_Save env st (ctx r) a h))))))"

definition save_call :: "Registry \<Rightarrow> heap \<Rightarrow> string \<Rightarrow> call option" where
  "save_call r h nm =
     (case map_lookup (sessions r) nm of
        None \<Rightarrow> None
      | Some info \<Rightarrow>
          (case s info of
             None \<Rightarrow> None
           | Some a \<Rightarrow>
               (case deref h a of
                  None \<Rightarrow> None
                | Some session \<Rightarrow>
                    (case store session of
                       None \<Rightarrow> None
                     | Some st \<Rightarrow> Some (CallSave st (ctx r) a)))))"

text \<open>The pool holds registry objects only.\<close>

definition pool_ok :: "pkg \<Rightarrow> bool" where
  "pool_ok g = list_all (\<lambda>x. x < length (registries g)) (registryPool g)"

subsection \<open>Example registries\<close>

text \<open>A registry as \<^verbatim>\<open>GetRegistry\<close> initialises it, and a handler's later lookups.\<close>

definition example_registry :: Registry where
  "example_registry = \<lparr>ctx = Some 1, sessions = Some Map.empty\<rparr>"

definition example_lookups :: "(Store option \<times> string) list" where
  "example_lookups = [(Some 1, ''other''), (Some 1, ''sid''), (None, ''sid''), (Some 1, ''a b'')]"

text \<open>A registry after one lookup of \<^verbatim>\<open>"sid"\<close> with store 1, and its world.\<close>

definition example_registry1 :: Registry where
  "example_registry1 = \<lparr>ctx = Some 1, sessions = Some [''sid'' \<mapsto> \<lparr>s = Some 0, e = None\<rparr>]\<rparr>"

definition example_world :: world where
  "example_world =
     \<lparr>heap = [\<lparr>ID = [], Values = Some Map.empty, Options = None, IsNew = True,
               store = Some 1, name = ''sid''\<rparr>],
      calls = [CallNew 1 (Some 1) ''sid'']\<rparr>"

text \<open>Three registered sessions; the store of the second fails to save.\<close>

definition example_registry3 :: Registry where
  "example_registry3 =
     \<lparr>ctx = Some 1,
      sessions = Some [''a'' \<mapsto> \<lparr>s = Some 0, e = None\<rparr>, ''b'' \<mapsto> \<lparr>s = Some 1, e = None\<rparr>,
                       ''c'' \<mapsto> \<lparr>s = Some 2, e = None\<rparr>]\<rparr>"

definition example_world3 :: world where
  "example_world3 =
     \<lparr>heap = [\<lparr>ID = [], Values = Some Map.empty, Options = None, IsNew = True, store = Some 1, name = ''a''\<rparr>,
              \<lparr>ID = [], Values = Some Map.empty, Options = None, IsNew = True, store = Some 2, name = ''b''\<rparr>,
              \<lparr>ID = [], Values = Some Map.empty, Options = None, IsNew = True, store = Some 1, name = ''c''\<rparr>],
      calls = []\<rparr>"

text \<open>The package state at the end of a request that looked up one session.\<close>

definition example_pkg :: pkg where
  "example_pkg =
     \<lparr>registries = [\<lparr>ctx = Some 7, sessions = Some [''sid'' \<mapsto> \<lparr>s = Some 0, e = None\<rparr>]\<rparr>],
      registryPool = [],
      attached = [Some 7 \<mapsto> 0]\<rparr>"

section \<open>MultiError.Error\<close>

lemma count_errors_eq:
  "count_errors msg m (str, n) =
     (if n = 0 \<and> messages msg m \<noteq> [] then hd (messages msg m) else str,
      n + length (messages msg m))"
proof (induction m arbitrary: str n)
  case Nil
  then show ?case by (simp add: messages_def)
next
  case (Cons x m)
  then show ?case
    by (cases x) (auto simp add: messages_def)
qed

text \<open>
  C7. With \<open>n\<close> the number of non-nil entries, \<^verbatim>\<open>MultiError.Error()\<close> is
  \<^verbatim>\<open>"(0 errors)"\<close> for \<open>n = 0\<close>, the message of the first non-nil entry for
  \<open>n = 1\<close>, that message followed by \<^verbatim>\<open>" (and 1 other error)"\<close> for \<open>n = 2\<close>, and
  followed by \<^verbatim>\<open>" (and N-1 other errors)"\<close> for \<open>n > 2\<close>, for every sequence of
  entries, nil entries included.
\<close>

theorem MultiError_Error_format:
  "MultiError_Error msg m =
     (let n = length (messages msg m) in
      if n = 0 then ''(0 errors)''
      else if n = 1 then hd (messages msg m)
      else if n = 2 then hd (messages msg m) @ '' (and 1 other error)''
      else hd (messages msg m) @ '' (and '' @ decimal (n - 1) @ '' other errors)'')"
  by (simp add: MultiError_Error_def count_errors_eq Let_def)

theorem MultiError_Error_format_witness:
  "MultiError_Error id [None, Some ''boom'', Some ''a'', None, Some ''b'', Some ''c'', Some ''d'']
     = ''boom (and 4 other errors)''"
  using MultiError_Error_format
    [of id "[None, Some ''boom'', Some ''a'', None, Some ''b'', Some ''c'', Some ''d'']"]
  by (simp add: messages_def decimal.simps digit_char_def)

section \<open>Flash messages\<close>

lemma flash_slot_cases:
  "flash_slot sess vars = Some fs \<Longrightarrow>
     (map_lookup (Values sess) (flash_key vars) = None \<and> fs = []) \<or>
     map_lookup (Values sess) (flash_key vars) = Some (VSlice fs)"
  by (auto simp: flash_slot_def split: option.splits val.splits)

lemma AddFlash_appends:
  assumes "Values sess = Some m" and "flash_slot sess vars = Some fs"
  shows "AddFlash sess v vars = Inr (sess\<lparr>Values := Some (m(flash_key vars \<mapsto> VSlice (fs @ [v])))\<rparr>)"
  using flash_slot_cases [OF assms(2)] assms(1)
  by (auto simp: AddFlash_def Let_def assert_slice_def map_assign_def)

lemma flash_slot_after_AddFlash:
  "flash_slot (sess\<lparr>Values := Some (m(flash_key vars \<mapsto> VSlice fs))\<rparr>) vars = Some fs"
  by (simp add: flash_slot_def map_lookup_def)

lemma AddFlash_each_exact:
  assumes "Values sess = Some m" and "flash_slot sess vars = Some fs"
  shows "AddFlash_each sess vs vars =
           Inr (if vs = [] then sess
                else sess\<lparr>Values := Some (m(flash_key vars \<mapsto> VSlice (fs @ vs)))\<rparr>)"
  using assms
proof (induction vs arbitrary: sess m fs)
  case Nil
  then show ?case by simp
next
  case (Cons v vs)
  let ?m = "m(flash_key vars \<mapsto> VSlice (fs @ [v]))"
  let ?s = "sess\<lparr>Values := Some ?m\<rparr>"
  have step: "AddFlash sess v vars = Inr ?s"
    using Cons.prems by (rule AddFlash_appends)
  have v: "Values ?s = Some ?m" by simp
  have slot: "flash_slot ?s vars = Some (fs @ [v])"
    by (rule flash_slot_after_AddFlash)
  from Cons.IH [OF v slot] step show ?case by simp
qed

lemma Flashes_exact:
  assumes "Values sess = Some m" and "flash_slot sess vars = Some fs"
  shows "Flashes sess vars = (Inr fs, sess\<lparr>Values := Some (m(flash_key vars := None))\<rparr>)"
proof -
  from flash_slot_cases [OF assms(2)] show ?thesis
  proof
    assume a: "map_lookup (Values sess) (flash_key vars) = None \<and> fs = []"
    with assms(1) have "m (flash_key vars) = None" by (simp add: map_lookup_def)
    then have "m(flash_key vars := None) = m" by (rule fun_upd_idem)
    with assms(1) have "sess\<lparr>Values := Some (m(flash_key vars := None))\<rparr> = sess" by simp
    with a show ?thesis by (simp add: Flashes_def Let_def)
  next
    assume "map_lookup (Values sess) (flash_key vars) = Some (VSlice fs)"
    with assms(1) show ?thesis
      by (simp add: Flashes_def Let_def assert_slice_def map_delete_def)
  qed
qed

text \<open>
  C5. In a session whose \<^verbatim>\<open>Values\<close> map \<open>m\<close> is allocated and whose flash key is
  absent or holds a sequence \<open>fs\<close> (absent: \<open>fs = []\<close>), \<^verbatim>\<open>AddFlash\<close> stores
  \<open>fs\<close> with the value appended under the key and changes nothing else, and
  \<^verbatim>\<open>AddFlash\<close> of the values \<open>vs\<close> in turn leaves \<open>fs @ vs\<close> under the key.
  \<^verbatim>\<open>Flashes\<close> then returns \<open>fs @ vs\<close>, in insertion order, and leaves the session
  with the map \<open>m\<close> without the key: the key is removed, every other key and every
  other field is as before. On that session \<^verbatim>\<open>Flashes\<close> returns the empty sequence
  and changes nothing.
\<close>

theorem flashes_append_then_pop:
  assumes "Values sess = Some m" and "flash_slot sess vars = Some fs"
  shows "AddFlash sess v vars =
           Inr (sess\<lparr>Values := Some (m(flash_key vars \<mapsto> VSlice (fs @ [v])))\<rparr>) \<and>
         AddFlash_each sess vs vars =
           Inr (if vs = [] then sess
                else sess\<lparr>Values := Some (m(flash_key vars \<mapsto> VSlice (fs @ vs)))\<rparr>) \<and>
         Flashes (if vs = [] then sess
                  else sess\<lparr>Values := Some (m(flash_key vars \<mapsto> VSlice (fs @ vs)))\<rparr>) vars =
           (Inr (fs @ vs), sess\<lparr>Values := Some (m(flash_key vars := None))\<rparr>) \<and>
         Flashes (sess\<lparr>Values := Some (m(flash_key vars := None))\<rparr>) vars =
           (Inr [], sess\<lparr>Values := Some (m(flash_key vars := None))\<rparr>)"
proof (intro conjI)
  show "AddFlash sess v vars =
           Inr (sess\<lparr>Values := Some (m(flash_key vars \<mapsto> VSlice (fs @ [v])))\<rparr>)"
    using assms by (rule AddFlash_appends)
  show "AddFlash_each sess vs vars =
           Inr (if vs = [] then sess
                else sess\<lparr>Values := Some (m(flash_key vars \<mapsto> VSlice (fs @ vs)))\<rparr>)"
    using assms by (rule AddFlash_each_exact)
  show "Flashes (if vs = [] then sess
                  else sess\<lparr>Values := Some (m(flash_key vars \<mapsto> VSlice (fs @ vs)))\<rparr>) vars =
           (Inr (fs @ vs), sess\<lparr>Values := Some (m(flash_key vars := None))\<rparr>)"
  proof (cases "vs = []")
    case True
    with Flashes_exact [OF assms] show ?thesis by simp
  next
    case False
    let ?m = "m(flash_key vars \<mapsto> VSlice (fs @ vs))"
    let ?s = "sess\<lparr>Values := Some ?m\<rparr>"
    have "Values ?s = Some ?m" by simp
    moreover have "flash_slot ?s vars = Some (fs @ vs)"
      by (rule flash_slot_after_AddFlash)
    ultimately have "Flashes ?s vars = (Inr (fs @ vs), ?s\<lparr>Values := Some (?m(flash_key vars := None))\<rparr>)"
      by (rule Flashes_exact)
    with False show ?thesis by simp
  qed
  let ?d = "m(flash_key vars := None)"
  let ?sd = "sess\<lparr>Values := Some ?d\<rparr>"
  have "Values ?sd = Some ?d" by simp
  moreover have "flash_slot ?sd vars = Some []"
    by (simp add: flash_slot_def map_lookup_def)
  ultimately have "Flashes ?sd vars = (Inr [], ?sd\<lparr>Values := Some (?d(flash_key vars := None))\<rparr>)"
    by (rule Flashes_exact)
  then show "Flashes ?sd vars = (Inr [], ?sd)" by simp
qed

text \<open>
  The example of the claim, \<^verbatim>\<open>AddFlash("x")\<close>, \<^verbatim>\<open>AddFlash("y")\<close>, then
  \<^verbatim>\<open>Flashes()\<close> twice: with the explicit key \<^verbatim>\<open>"notice"\<close> on a session that
  holds a value of the application, which stays, and with the default key on a session
  made by \<^verbatim>\<open>NewSession\<close>.
\<close>

theorem flashes_append_then_pop_witness:
  "AddFlash_each example_session [VString ''x'', VString ''y''] [''notice''] =
     Inr (example_session\<lparr>Values := Some [VString ''user'' \<mapsto> VString ''alice'',
            VString ''notice'' \<mapsto> VSlice [VString ''x'', VString ''y'']]\<rparr>) \<and>
   Flashes (example_session\<lparr>Values := Some [VString ''user'' \<mapsto> VString ''alice'',
            VString ''notice'' \<mapsto> VSlice [VString ''x'', VString ''y'']]\<rparr>) [''notice''] =
     (Inr [VString ''x'', VString ''y''],
      example_session\<lparr>Values := Some ([VString ''user'' \<mapsto> VString ''alice''](VString ''notice'' := None))\<rparr>) \<and>
   map_lookup (Some ([VString ''user'' \<mapsto> VString ''alice''](VString ''notice'' := None)))
      (VString ''user'') = Some (VString ''alice'') \<and>
   Flashes (example_session\<lparr>Values := Some ([VString ''user'' \<mapsto> VString ''alice''](VString ''notice'' := None))\<rparr>)
      [''notice''] =
     (Inr [],
      example_session\<lparr>Values := Some ([VString ''user'' \<mapsto> VString ''alice''](VString ''notice'' := None))\<rparr>) \<and>
   AddFlash_each (snd (NewSession None ''sid'' []) ! 0) [VString ''x'', VString ''y''] [] =
     Inr ((snd (NewSession None ''sid'' []) ! 0)
            \<lparr>Values := Some [VString ''_flash'' \<mapsto> VSlice [VString ''x'', VString ''y'']]\<rparr>) \<and>
   Flashes ((snd (NewSession None ''sid'' []) ! 0)
            \<lparr>Values := Some [VString ''_flash'' \<mapsto> VSlice [VString ''x'', VString ''y'']]\<rparr>) [] =
     (Inr [VString ''x'', VString ''y''],
      (snd (NewSession None ''sid'' []) ! 0)\<lparr>Values := Some (Map.empty(VString ''_flash'' := None))\<rparr>)"
proof -
  have h1: "Values example_session = Some [VString ''user'' \<mapsto> VString ''alice'']"
    by (simp add: example_session_def)
  have h2: "flash_slot example_session [''notice''] = Some []"
    by (simp add: example_session_def flash_slot_def map_lookup_def flash_key_def)
  have k: "flash_key [''notice''] = VString ''notice''"
    by (simp add: flash_key_def)
  have g1: "Values (snd (NewSession None ''sid'' []) ! 0) = Some Map.empty"
    by (simp add: NewSession_def)
  have g2: "flash_slot (snd (NewSession None ''sid'' []) ! 0) [] = Some []"
    by (simp add: NewSession_def flash_slot_def map_lookup_def)
  have k0: "flash_key [] = VString ''_flash''"
    by (simp add: flash_key_def flashesKey_def)
  have look: "map_lookup (Some ([VString ''user'' \<mapsto> VString ''alice''](VString ''notice'' := None)))
      (VString ''user'') = Some (VString ''alice'')"
    by (simp add: map_lookup_def)
  from flashes_append_then_pop [OF h1 h2, of "VString ''x''" "[VString ''x'', VString ''y'']"]
    flashes_append_then_pop [OF g1 g2, of "VString ''x''" "[VString ''x'', VString ''y'']"]
    look
  show ?thesis unfolding k k0 by (simp del: AddFlash_each.simps)
qed

text \<open>
  C9. When the flash key holds a value that is not a \<^verbatim>\<open>[]interface{}\<close>
  (\<open>flash_slot\<close> is \<open>None\<close>), \<^verbatim>\<open>Flashes\<close> and \<^verbatim>\<open>AddFlash\<close> both panic on the type
  assertion; otherwise \<^verbatim>\<open>Flashes\<close> returns a sequence, and \<^verbatim>\<open>AddFlash\<close> returns
  when the map is allocated.
\<close>

theorem flash_type_assertion:
  "(flash_slot sess vars = None \<longrightarrow>
      fst (Flashes sess vars) = Inl TypeAssertion \<and> AddFlash sess v vars = Inl TypeAssertion) \<and>
   (flash_slot sess vars \<noteq> None \<longrightarrow>
      (\<exists>fs. fst (Flashes sess vars) = Inr fs) \<and>
      (Values sess \<noteq> None \<longrightarrow> (\<exists>sess'. AddFlash sess v vars = Inr sess')))"
  by (auto simp: flash_slot_def Flashes_def AddFlash_def Let_def assert_slice_def map_lookup_def
        map_assign_def split: option.splits val.splits)

theorem flash_type_assertion_witness:
  "fst (Flashes \<lparr>ID = [], Values = Some [VString ''_flash'' \<mapsto> VString ''hello''], Options = None,
                 IsNew = True, store = None, name = ''sid''\<rparr> []) = Inl TypeAssertion \<and>
   AddFlash \<lparr>ID = [], Values = Some [VString ''_flash'' \<mapsto> VString ''hello''], Options = None,
             IsNew = True, store = None, name = ''sid''\<rparr> (VString ''x'') [] = Inl TypeAssertion"
  using flash_type_assertion [of "\<lparr>ID = [], Values = Some [VString ''_flash'' \<mapsto> VString ''hello''],
      Options = None, IsNew = True, store = None, name = ''sid''\<rparr>" "[]" "VString ''x''"]
  by (simp add: flash_slot_def map_lookup_def flash_key_def flashesKey_def)

section \<open>NewCookie\<close>

lemma sint_seconds:
  fixes x :: "64 word"
  assumes "0 \<le> sint x" and "sint x \<le> 9223372036"
  shows "sint (x * Second) = sint x * 1000000000"
proof -
  have sec: "sint Second = 1000000000" by (simp add: Second_def)
  have lo: "- (2 ^ 63) \<le> sint x * 1000000000" using assms by simp
  have hi: "sint x * 1000000000 < 2 ^ 63" using assms by simp
  have "sint (x * Second) = signed_take_bit 63 (sint x * sint Second)"
    by (simp add: sint_word_ariths)
  also have "\<dots> = sint x * 1000000000"
    using lo hi by (simp add: sec signed_take_bit_int_eq_self)
  finally show ?thesis .
qed

text \<open>
  C8, as stated, fails in two places. At a \<^verbatim>\<open>MaxAge\<close> above \<open>9223372036\<close> the
  product with \<^verbatim>\<open>time.Second\<close> leaves the range of \<^verbatim>\<open>int64\<close> and wraps
  around: for \<^verbatim>\<open>MaxAge = 9223372037\<close>, which is positive, the expiry is about 292
  years before \<open>now\<close>, not \<open>now\<close> plus \<^verbatim>\<open>MaxAge\<close> seconds. And the path is not
  copied verbatim: it goes through \<^verbatim>\<open>SetPath\<close>, and for the empty path of the zero
  \<^verbatim>\<open>Options\<close> the cookie holds \<^verbatim>\<open>"/"\<close>.
\<close>

theorem NewCookie_counterexample:
  "0 <s (9223372037 :: go_int) \<and>
   map_sum id cookie_expire
     (NewCookie example_fasthttp 1700000000000000000 ''sid'' ''v'' (Some (example_options 9223372037)))
     = Inr (Some (1700000000000000000 - 9223372036709551616)) \<and>
   map_sum id cookie_expire
     (NewCookie example_fasthttp 1700000000000000000 ''sid'' ''v'' (Some (example_options 9223372037)))
     \<noteq> Inr (Some (1700000000000000000 + 9223372037 * 1000000000)) \<and>
   map_sum id cookie_path
     (NewCookie example_fasthttp 1700000000000000000 ''sid'' ''v'' (Some example_options_no_path))
     = Inr ''/'' \<and>
   map_sum id cookie_path
     (NewCookie example_fasthttp 1700000000000000000 ''sid'' ''v'' (Some example_options_no_path))
     \<noteq> Inr (Path example_options_no_path)"
  by (simp add: NewCookie_def Let_def word_sless_alt Time_Add_def Second_def example_options_def
        example_options_no_path_def example_fasthttp_def)

text \<open>
  C8, amended. \<^verbatim>\<open>NewCookie\<close> hands name, value, path and domain to the setters of
  the cookie, which holds what \<^verbatim>\<open>SetKey\<close>, \<^verbatim>\<open>SetValue\<close>, \<^verbatim>\<open>SetPath\<close>
  and \<^verbatim>\<open>SetDomain\<close> store for them, and it copies http-only and secure.
  \<^verbatim>\<open>MaxAge = 0\<close> sets no expiry, \<^verbatim>\<open>MaxAge < 0\<close> sets the expiry to
  \<^verbatim>\<open>time.Unix(1, 0)\<close>, and a \<^verbatim>\<open>MaxAge\<close> from 1 to 9223372036 sets it to
  \<open>now\<close> plus \<^verbatim>\<open>MaxAge\<close> seconds.
\<close>

theorem NewCookie_sets:
  "\<exists>c. NewCookie lib now nm v (Some opts) = Inr c \<and>
        cookie_key c = SetKey lib nm \<and> cookie_value c = SetValue lib v \<and>
        cookie_path c = SetPath lib (Path opts) \<and> cookie_domain c = SetDomain lib (Domain opts) \<and>
        cookie_httpOnly c = HttpOnly opts \<and> cookie_secure c = Secure opts \<and>
        (MaxAge opts = 0 \<longrightarrow> cookie_expire c = None) \<and>
        (MaxAge opts <s 0 \<longrightarrow> cookie_expire c = Some (Unix 1 0)) \<and>
        (0 <s MaxAge opts \<and> sint (MaxAge opts) \<le> 9223372036 \<longrightarrow>
           cookie_expire c = Some (now + sint (MaxAge opts) * 1000000000))"
proof -
  have pos: "0 <s MaxAge opts \<Longrightarrow> sint (MaxAge opts) \<le> 9223372036 \<Longrightarrow>
      Time_Add now (MaxAge opts * Second) = now + sint (MaxAge opts) * 1000000000"
    by (simp add: Time_Add_def sint_seconds word_sless_alt)
  have neg: "MaxAge opts <s 0 \<Longrightarrow> \<not> 0 <s MaxAge opts"
    by (simp add: word_sless_alt)
  show ?thesis
    using pos neg by (auto simp: NewCookie_def Let_def)
qed

text \<open>
  The three examples of the spec, \<^verbatim>\<open>MaxAge\<close> 0, 100 and -1, and the options with
  the empty path.
\<close>

theorem NewCookie_sets_witness:
  "map_sum id cookie_expire
     (NewCookie example_fasthttp 1700000000000000000 ''sid'' ''v'' (Some (example_options 0)))
     = Inr None \<and>
   map_sum id cookie_expire
     (NewCookie example_fasthttp 1700000000000000000 ''sid'' ''v'' (Some (example_options 100)))
     = Inr (Some 1700000100000000000) \<and>
   map_sum id cookie_expire
     (NewCookie example_fasthttp 1700000000000000000 ''sid'' ''v'' (Some (example_options (- 1))))
     = Inr (Some 1000000000) \<and>
   map_sum id cookie_path
     (NewCookie example_fasthttp 1700000000000000000 ''sid'' ''v'' (Some (example_options 100)))
     = Inr ''/'' \<and>
   map_sum id (\<lambda>c. (cookie_path c, cookie_domain c, cookie_httpOnly c, cookie_secure c, cookie_expire c))
     (NewCookie example_fasthttp 1700000000000000000 ''sid'' ''v'' (Some example_options_no_path))
     = Inr (''/'', [], False, False, Some 1700003600000000000)"
proof -
  obtain c0 where
    "NewCookie example_fasthttp 1700000000000000000 ''sid'' ''v'' (Some (example_options 0)) = Inr c0"
    "MaxAge (example_options 0) = 0 \<longrightarrow> cookie_expire c0 = None"
    using NewCookie_sets [of example_fasthttp 1700000000000000000 "''sid''" "''v''" "example_options 0"]
    by blast
  then have zero: "map_sum id cookie_expire
      (NewCookie example_fasthttp 1700000000000000000 ''sid'' ''v'' (Some (example_options 0))) = Inr None"
    by (simp add: example_options_def)
  obtain c1 where
    "NewCookie example_fasthttp 1700000000000000000 ''sid'' ''v'' (Some (example_options 100)) = Inr c1"
    "cookie_path c1 = SetPath example_fasthttp (Path (example_options 100))"
    "0 <s MaxAge (example_options 100) \<and> sint (MaxAge (example_options 100)) \<le> 9223372036 \<longrightarrow>
       cookie_expire c1 = Some (1700000000000000000 + sint (MaxAge (example_options 100)) * 1000000000)"
    using NewCookie_sets [of example_fasthttp 1700000000000000000 "''sid''" "''v''" "example_options 100"]
    by blast
  then have pos: "map_sum id cookie_expire
      (NewCookie example_fasthttp 1700000000000000000 ''sid'' ''v'' (Some (example_options 100)))
      = Inr (Some 1700000100000000000)"
    and path: "map_sum id cookie_path
      (NewCookie example_fasthttp 1700000000000000000 ''sid'' ''v'' (Some (example_options 100)))
      = Inr ''/''"
    by (simp_all add: example_options_def example_fasthttp_def word_sless_alt)
  obtain c2 where
    "NewCookie example_fasthttp 1700000000000000000 ''sid'' ''v'' (Some (example_options (- 1))) = Inr c2"
    "MaxAge (example_options (- 1)) <s 0 \<longrightarrow> cookie_expire c2 = Some (Unix 1 0)"
    using NewCookie_sets [of example_fasthttp 1700000000000000000 "''sid''" "''v''" "example_options (- 1)"]
    by blast
  then have neg: "map_sum id cookie_expire
      (NewCookie example_fasthttp 1700000000000000000 ''sid'' ''v'' (Some (example_options (- 1))))
      = Inr (Some 1000000000)"
    by (simp add: example_options_def word_sless_alt Unix_def)
  obtain c3 where
    "NewCookie example_fasthttp 1700000000000000000 ''sid'' ''v'' (Some example_options_no_path) = Inr c3"
    "cookie_path c3 = SetPath example_fasthttp (Path example_options_no_path)"
    "cookie_domain c3 = SetDomain example_fasthttp (Domain example_options_no_path)"
    "cookie_httpOnly c3 = HttpOnly example_options_no_path"
    "cookie_secure c3 = Secure example_options_no_path"
    "0 <s MaxAge example_options_no_path \<and> sint (MaxAge example_options_no_path) \<le> 9223372036 \<longrightarrow>
       cookie_expire c3 = Some (1700000000000000000 + sint (MaxAge example_options_no_path) * 1000000000)"
    using NewCookie_sets [of example_fasthttp 1700000000000000000 "''sid''" "''v''" example_options_no_path]
    by blast
  then have nopath: "map_sum id
      (\<lambda>c. (cookie_path c, cookie_domain c, cookie_httpOnly c, cookie_secure c, cookie_expire c))
      (NewCookie example_fasthttp 1700000000000000000 ''sid'' ''v'' (Some example_options_no_path))
      = Inr (''/'', [], False, False, Some 1700003600000000000)"
    by (simp add: example_options_no_path_def example_fasthttp_def word_sless_alt)
  from zero pos neg path nopath show ?thesis by simp
qed

section \<open>Session.Save\<close>

text \<open>
  C10. \<^verbatim>\<open>Session.Save\<close> on a session whose store is nil panics with a nil dereference
  and calls nothing, whereas \<^verbatim>\<open>Registry.Save\<close> over a registry that holds the same
  session returns a \<^verbatim>\<open>MultiError\<close> with the "missing store" error of its name.
\<close>

theorem Session_Save_nil_store:
  assumes "deref (heap w) a = Some sess" and "store sess = None"
  shows "Session_Save env a c w = (Inl NilDereference, w) \<and>
         (\<forall>r nm info. map_lookup (sessions r) nm = Some info \<and> s info = Some a \<longrightarrow>
            Registry_Save env r [nm] w = (Inr (Some (MultiError [Some (MissingStore nm)])), w))"
  using assms by (simp add: Session_Save_def Registry_Save_def)

text \<open>The session of the example is made by \<^verbatim>\<open>NewSession\<close> with a nil store.\<close>

theorem Session_Save_nil_store_witness:
  "Session_Save example_env 0 (Some 1) \<lparr>heap = snd (NewSession None ''sid'' []), calls = []\<rparr>
     = (Inl NilDereference, \<lparr>heap = snd (NewSession None ''sid'' []), calls = []\<rparr>) \<and>
   Registry_Save example_env example_registry1 [''sid'']
       \<lparr>heap = snd (NewSession None ''sid'' []), calls = []\<rparr>
     = (Inr (Some (MultiError [Some (MissingStore ''sid'')])),
        \<lparr>heap = snd (NewSession None ''sid'' []), calls = []\<rparr>)"
proof -
  let ?w = "\<lparr>heap = snd (NewSession None ''sid'' []), calls = []\<rparr>"
  let ?sess = "\<lparr>ID = [], Values = Some Map.empty, Options = None, IsNew = False,
                store = None, name = ''sid''\<rparr>"
  have d: "deref (heap ?w) 0 = Some ?sess"
    by (simp add: NewSession_def deref_def)
  have n: "store ?sess = None" by simp
  have entry: "map_lookup (sessions example_registry1) ''sid'' = Some \<lparr>s = Some 0, e = None\<rparr> \<and>
      s \<lparr>s = Some 0, e = None\<rparr> = Some 0"
    by (simp add: example_registry1_def map_lookup_def)
  from Session_Save_nil_store [OF d n, of example_env "Some 1"] entry
  show ?thesis by blast
qed

section \<open>Registry.Get\<close>

lemmas example_defs =
  example_env_def example_New_def example_Save_def NewSession_def example_registry_def
  example_lookups_def cookie_name_legal_def is_control_def is_separator_def
  Registry_Get_def Get_entry_def heap_write_def map_lookup_def map_assign_def deref_def

lemma example_env_allocates: "New_allocates example_env"
  by (simp add: New_allocates_def example_env_def example_New_def NewSession_def)

lemma example_name_valid: "isCookieNameValid example_env ''sid''"
  by (simp add: example_env_def cookie_name_legal_def is_control_def is_separator_def)

lemma registry_okD:
  "registry_ok r h \<Longrightarrow> map_lookup (sessions r) nm = Some info \<Longrightarrow>
   \<exists>a. s info = Some a \<and> a < length h"
  unfolding registry_ok_def by blast

lemma New_allocatesD:
  assumes "New_allocates env" and "Store_New env st c nm h = ((p, err), h')"
  shows "\<exists>a. p = Some a \<and> length h \<le> a \<and> a < length h'"
proof -
  from assms(1) obtain a err0 h0 where
    "Store_New env st c nm h = ((Some a, err0), h0)" "length h \<le> a" "a < length h0"
    unfolding New_allocates_def by blast
  with assms(2) show ?thesis by auto
qed

lemma Get_hit:
  assumes "isCookieNameValid env nm"
      and "map_lookup (sessions r) nm = Some info"
      and "s info = Some a" and "a < length (heap w)"
  shows "Registry_Get env r st nm w =
           (Inr (Some a, e info), r, w\<lparr>heap := (heap w)[a := (heap w ! a)\<lparr>store := st\<rparr>]\<rparr>)"
  using assms by (simp add: Registry_Get_def Get_entry_def heap_write_def)

lemma Get_miss:
  assumes "isCookieNameValid env nm"
      and "sessions r = Some m" and "m nm = None"
      and "Store_New env sto (ctx r) nm (heap w) = ((Some a, err), h1)"
      and "a < length h1"
  shows "Registry_Get env r (Some sto) nm w =
           (Inr (Some a, err),
            r\<lparr>sessions := Some (m(nm \<mapsto> \<lparr>s = Some a, e = err\<rparr>))\<rparr>,
            \<lparr>heap = h1[a := (h1 ! a)\<lparr>name := nm, store := Some sto\<rparr>],
             calls = calls w @ [CallNew sto (ctx r) nm]\<rparr>)"
  using assms
  by (simp add: Registry_Get_def Get_entry_def heap_write_def map_lookup_def map_assign_def)

text \<open>The three ways in which \<^verbatim>\<open>Registry.Get\<close> returns.\<close>

lemma Get_returns_cases:
  assumes "Registry_Get env r st nm w = (Inr out, r', w')"
  shows "(\<not> isCookieNameValid env nm \<and> out = (None, Some (InvalidCookieName nm)) \<and> r' = r \<and> w' = w) \<or>
         (isCookieNameValid env nm \<and>
          (\<exists>info a. map_lookup (sessions r) nm = Some info \<and> s info = Some a \<and> a < length (heap w) \<and>
             out = (Some a, e info) \<and> r' = r \<and>
             w' = w\<lparr>heap := (heap w)[a := (heap w ! a)\<lparr>store := st\<rparr>]\<rparr>)) \<or>
         (isCookieNameValid env nm \<and>
          (\<exists>m sto a err h1. sessions r = Some m \<and> m nm = None \<and> st = Some sto \<and>
             Store_New env sto (ctx r) nm (heap w) = ((Some a, err), h1) \<and> a < length h1 \<and>
             out = (Some a, err) \<and>
             r' = r\<lparr>sessions := Some (m(nm \<mapsto> \<lparr>s = Some a, e = err\<rparr>))\<rparr> \<and>
             w' = \<lparr>heap = h1[a := (h1 ! a)\<lparr>name := nm, store := Some sto\<rparr>],
                   calls = calls w @ [CallNew sto (ctx r) nm]\<rparr>))"
proof (cases "isCookieNameValid env nm")
  case False
  with assms show ?thesis by (simp add: Registry_Get_def)
next
  case valid: True
  show ?thesis
  proof (cases "map_lookup (sessions r) nm")
    case (Some info)
    with assms valid show ?thesis
      by (auto simp: Registry_Get_def Get_entry_def heap_write_def split: option.splits if_splits)
  next
    case None
    with assms valid show ?thesis
      by (auto simp: Registry_Get_def Get_entry_def heap_write_def map_lookup_def map_assign_def
               split: option.splits if_splits prod.splits sum.splits)
  qed
qed

lemma Get_returns_bound:
  assumes valid: "isCookieNameValid env nm"
      and get: "Registry_Get env r st nm w = (Inr (p, err), r', w')"
  shows "\<exists>a sess. p = Some a \<and> deref (heap w') a = Some sess \<and> store sess = st"
proof -
  from Get_returns_cases [OF get] valid consider
      (hit) info b where "map_lookup (sessions r) nm = Some info"
        "s info = Some b" "b < length (heap w)" "(p, err) = (Some b, e info)" "r' = r"
        "w' = w\<lparr>heap := (heap w)[b := (heap w ! b)\<lparr>store := st\<rparr>]\<rparr>"
    | (miss) m sto b err' h1 where "sessions r = Some m" "m nm = None"
        "st = Some sto" "Store_New env sto (ctx r) nm (heap w) = ((Some b, err'), h1)" "b < length h1"
        "(p, err) = (Some b, err')" "r' = r\<lparr>sessions := Some (m(nm \<mapsto> \<lparr>s = Some b, e = err'\<rparr>))\<rparr>"
        "w' = \<lparr>heap = h1[b := (h1 ! b)\<lparr>name := nm, store := Some sto\<rparr>],
               calls = calls w @ [CallNew sto (ctx r) nm]\<rparr>"
    by blast
  then show ?thesis
  proof cases
    case hit
    then show ?thesis by (simp add: deref_def)
  next
    case miss
    then show ?thesis by (simp add: deref_def)
  qed
qed

text \<open>
  The assumptions on the registry hold at the start of a request and after every lookup
  that returns, and a lookup with a store returns.
\<close>

lemma registry_ok_empty: "registry_ok \<lparr>ctx = c, sessions = Some Map.empty\<rparr> h"
  by (simp add: registry_ok_def map_lookup_def)

lemma Get_preserves_ok:
  assumes contract: "New_allocates env"
      and ok: "registry_ok r (heap w)"
      and get: "Registry_Get env r st n w = (Inr out, r', w')"
  shows "registry_ok r' (heap w') \<and> (sessions r \<noteq> None \<longrightarrow> sessions r' \<noteq> None)"
proof -
  from Get_returns_cases [OF get] consider
      (invalid) "r' = r" "w' = w"
    | (hit) b where "r' = r" "w' = w\<lparr>heap := (heap w)[b := (heap w ! b)\<lparr>store := st\<rparr>]\<rparr>"
    | (miss) m sto b err' h1 where "sessions r = Some m" "m n = None"
        "Store_New env sto (ctx r) n (heap w) = ((Some b, err'), h1)" "b < length h1"
        "r' = r\<lparr>sessions := Some (m(n \<mapsto> \<lparr>s = Some b, e = err'\<rparr>))\<rparr>"
        "w' = \<lparr>heap = h1[b := (h1 ! b)\<lparr>name := n, store := Some sto\<rparr>],
               calls = calls w @ [CallNew sto (ctx r) n]\<rparr>"
    by blast
  then show ?thesis
  proof cases
    case invalid
    with ok show ?thesis by simp
  next
    case hit
    with ok show ?thesis by (simp add: registry_ok_def)
  next
    case miss
    from New_allocatesD [OF contract miss(3)] have fresh: "length (heap w) \<le> b"
      by simp
    have "registry_ok r' (heap w')"
      unfolding registry_ok_def
    proof (intro allI impI)
      fix k info
      assume k: "map_lookup (sessions r') k = Some info"
      show "\<exists>x. s info = Some x \<and> x < length (heap w')"
      proof (cases "k = n")
        case True
        with k miss show ?thesis by (auto simp: map_lookup_def)
      next
        case False
        with k miss have "map_lookup (sessions r) k = Some info"
          by (simp add: map_lookup_def)
        with ok obtain x where "s info = Some x" "x < length (heap w)"
          using registry_okD by blast
        with fresh miss show ?thesis by simp
      qed
    qed
    with miss show ?thesis by simp
  qed
qed

lemma Get_returns:
  assumes contract: "New_allocates env"
      and ok: "registry_ok r (heap w)"
      and alloc: "sessions r \<noteq> None"
      and st: "st \<noteq> None"
  shows "\<exists>out r' w'. Registry_Get env r st n w = (Inr out, r', w')"
proof (cases "isCookieNameValid env n")
  case False
  then show ?thesis by (simp add: Registry_Get_def)
next
  case valid: True
  show ?thesis
  proof (cases "map_lookup (sessions r) n")
    case (Some info)
    from registry_okD [OF ok Some] obtain a where "s info = Some a" "a < length (heap w)"
      by blast
    from Get_hit [OF valid Some this] show ?thesis by blast
  next
    case None
    from alloc obtain m where m: "sessions r = Some m" by auto
    with None have mn: "m n = None" by (simp add: map_lookup_def)
    from st obtain sto where sto: "st = Some sto" by auto
    obtain p err h1 where new: "Store_New env sto (ctx r) n (heap w) = ((p, err), h1)"
      by (metis surj_pair)
    from New_allocatesD [OF contract new] obtain a where a: "p = Some a" "a < length h1"
      by blast
    from new a have "Store_New env sto (ctx r) n (heap w) = ((Some a, err), h1)"
      by simp
    from Get_miss [OF valid m mn this a(2)] sto
    show ?thesis by blast
  qed
qed

lemma Gets_returns:
  assumes contract: "New_allocates env"
  shows "registry_ok r (heap w) \<Longrightarrow> sessions r \<noteq> None \<Longrightarrow> list_all (\<lambda>op. fst op \<noteq> None) ops \<Longrightarrow>
         \<exists>res. Gets env r ops w = Inr res"
proof (induction ops arbitrary: r w)
  case Nil
  then show ?case by simp
next
  case (Cons op ops)
  obtain st n where op: "op = (st, n)" by (cases op)
  with Cons.prems have st: "st \<noteq> None" by simp
  from Get_returns [OF contract Cons.prems(1,2) st] obtain out r1 w1 where
    get: "Registry_Get env r st n w = (Inr out, r1, w1)" by blast
  from Get_preserves_ok [OF contract Cons.prems(1) get] Cons.prems(2)
  have "registry_ok r1 (heap w1)" "sessions r1 \<noteq> None" by simp_all
  from Cons.IH [OF this] Cons.prems(3) obtain res where "Gets env r1 ops w1 = Inr res"
    by auto
  with get op show ?case by (auto split: prod.splits)
qed

text \<open>
  C6. For a name that fails the cookie-name predicate, \<^verbatim>\<open>Registry.Get\<close> returns a
  nil session and the error naming the cookie name; the registry and the world, and with
  it the log of store calls, stay as they were.
\<close>

theorem Registry_Get_invalid_name:
  "\<not> isCookieNameValid env nm \<Longrightarrow>
   Registry_Get env r st nm w = (Inr (None, Some (InvalidCookieName nm)), r, w)"
  by (simp add: Registry_Get_def)

text \<open>A name with the control character BEL.\<close>

theorem Registry_Get_invalid_name_witness:
  "Registry_Get example_env example_registry1 (Some 1) [CHR ''a'', CHR 0x07] example_world
     = (Inr (None, Some (InvalidCookieName [CHR ''a'', CHR 0x07])), example_registry1, example_world)"
proof -
  have "\<not> isCookieNameValid example_env [CHR ''a'', CHR 0x07]"
    by (simp add: example_env_def cookie_name_legal_def is_control_def)
  then show ?thesis by (rule Registry_Get_invalid_name)
qed

text \<open>
  C4. For a valid name, whenever \<^verbatim>\<open>Registry.Get\<close> returns, the session it returns
  is not nil and its store is the store argument. On the branch of a registered name it
  returns the registered session bound to the store argument, whichever store that is,
  without a call of the store. On the branch of a new name it returns the session of
  \<^verbatim>\<open>store.New\<close> bound to the store argument.
\<close>

theorem Registry_Get_binds_store:
  assumes "isCookieNameValid env nm"
  shows "(\<forall>p err r' w'. Registry_Get env r st nm w = (Inr (p, err), r', w') \<longrightarrow>
            (\<exists>a sess. p = Some a \<and> deref (heap w') a = Some sess \<and> store sess = st)) \<and>
         (\<forall>info a. map_lookup (sessions r) nm = Some info \<and> s info = Some a \<and> a < length (heap w) \<longrightarrow>
            (\<exists>w'. Registry_Get env r st nm w = (Inr (Some a, e info), r, w') \<and>
                   calls w' = calls w \<and> map_option store (deref (heap w') a) = Some st)) \<and>
         (\<forall>m sto a err h1. st = Some sto \<and> sessions r = Some m \<and> m nm = None \<and>
              Store_New env sto (ctx r) nm (heap w) = ((Some a, err), h1) \<and> a < length h1 \<longrightarrow>
            (\<exists>r' w'. Registry_Get env r st nm w = (Inr (Some a, err), r', w') \<and>
                      map_option store (deref (heap w') a) = Some st))"
proof (intro conjI allI impI)
  fix p err r' w'
  assume "Registry_Get env r st nm w = (Inr (p, err), r', w')"
  with assms show "\<exists>a sess. p = Some a \<and> deref (heap w') a = Some sess \<and> store sess = st"
    by (rule Get_returns_bound)
next
  fix info a
  assume h: "map_lookup (sessions r) nm = Some info \<and> s info = Some a \<and> a < length (heap w)"
  then have "Registry_Get env r st nm w =
           (Inr (Some a, e info), r, w\<lparr>heap := (heap w)[a := (heap w ! a)\<lparr>store := st\<rparr>]\<rparr>)"
    using Get_hit [OF assms] by blast
  with h show "\<exists>w'. Registry_Get env r st nm w = (Inr (Some a, e info), r, w') \<and>
              calls w' = calls w \<and> map_option store (deref (heap w') a) = Some st"
    by (simp add: deref_def)
next
  fix m sto a err h1
  assume h: "st = Some sto \<and> sessions r = Some m \<and> m nm = None \<and>
      Store_New env sto (ctx r) nm (heap w) = ((Some a, err), h1) \<and> a < length h1"
  then have "Registry_Get env r (Some sto) nm w =
           (Inr (Some a, err),
            r\<lparr>sessions := Some (m(nm \<mapsto> \<lparr>s = Some a, e = err\<rparr>))\<rparr>,
            \<lparr>heap = h1[a := (h1 ! a)\<lparr>name := nm, store := Some sto\<rparr>],
             calls = calls w @ [CallNew sto (ctx r) nm]\<rparr>)"
    using Get_miss [OF assms] by blast
  with h show "\<exists>r' w'. Registry_Get env r st nm w = (Inr (Some a, err), r', w') \<and>
      map_option store (deref (heap w') a) = Some st"
    by (simp add: deref_def)
qed

text \<open>The session registered with store 1 is looked up again with store 3.\<close>

theorem Registry_Get_binds_store_witness:
  "fst (Registry_Get example_env example_registry1 (Some 3) ''sid'' example_world) = Inr (Some 0, None) \<and>
   calls (snd (snd (Registry_Get example_env example_registry1 (Some 3) ''sid'' example_world)))
     = calls example_world \<and>
   map_option store
     (deref (heap (snd (snd (Registry_Get example_env example_registry1 (Some 3) ''sid'' example_world)))) 0)
     = Some (Some 3)"
proof -
  have entry: "map_lookup (sessions example_registry1) ''sid'' = Some \<lparr>s = Some 0, e = None\<rparr> \<and>
      s \<lparr>s = Some 0, e = None\<rparr> = Some 0 \<and> 0 < length (heap example_world)"
    by (simp add: example_registry1_def example_world_def map_lookup_def)
  from Registry_Get_binds_store [OF example_name_valid, of example_registry1 "Some 3" example_world]
    entry
  obtain w' where
    "Registry_Get example_env example_registry1 (Some 3) ''sid'' example_world
       = (Inr (Some 0, e \<lparr>s = Some 0, e = None\<rparr>), example_registry1, w')"
    "calls w' = calls example_world"
    "map_option store (deref (heap w') 0) = Some (Some 3)"
    by blast
  then show ?thesis by simp
qed

lemma New_calls_append [simp]:
  "New_calls nm (cs @ [c]) = New_calls nm cs + (if is_New_for nm c then 1 else 0)"
  by (simp add: New_calls_def)

lemma cached_step:
  assumes contract: "New_allocates env"
      and valid: "isCookieNameValid env nm"
      and inv: "cached nm a err r (heap w)"
      and get: "Registry_Get env r st n w = (Inr out, r', w')"
  shows "cached nm a err r' (heap w') \<and>
         (n = nm \<longrightarrow> out = (Some a, err)) \<and>
         (isCookieNameValid env n \<and> n \<noteq> nm \<longrightarrow> fst out \<noteq> Some a) \<and>
         New_calls nm (calls w') = New_calls nm (calls w)"
proof -
  from inv have ok: "registry_ok r (heap w)"
    and entry: "map_lookup (sessions r) nm = Some \<lparr>s = Some a, e = err\<rparr>"
    and others: "\<And>k info. k \<noteq> nm \<Longrightarrow> map_lookup (sessions r) k = Some info \<Longrightarrow> s info \<noteq> Some a"
    by (auto simp: cached_def)
  from registry_okD [OF ok entry] have live: "a < length (heap w)"
    by simp
  from Get_returns_cases [OF get] consider
      (invalid) "\<not> isCookieNameValid env n" "out = (None, Some (InvalidCookieName n))" "r' = r" "w' = w"
    | (hit) info b where "isCookieNameValid env n" "map_lookup (sessions r) n = Some info"
        "s info = Some b" "b < length (heap w)" "out = (Some b, e info)" "r' = r"
        "w' = w\<lparr>heap := (heap w)[b := (heap w ! b)\<lparr>store := st\<rparr>]\<rparr>"
    | (miss) m sto b err' h1 where "isCookieNameValid env n" "sessions r = Some m" "m n = None"
        "st = Some sto" "Store_New env sto (ctx r) n (heap w) = ((Some b, err'), h1)" "b < length h1"
        "out = (Some b, err')" "r' = r\<lparr>sessions := Some (m(n \<mapsto> \<lparr>s = Some b, e = err'\<rparr>))\<rparr>"
        "w' = \<lparr>heap = h1[b := (h1 ! b)\<lparr>name := n, store := Some sto\<rparr>],
               calls = calls w @ [CallNew sto (ctx r) n]\<rparr>"
    by blast
  then show ?thesis
  proof cases
    case invalid
    with inv valid show ?thesis by auto
  next
    case hit
    have "cached nm a err r' (heap w')"
      using inv hit by (simp add: cached_def registry_ok_def)
    moreover have "n = nm \<longrightarrow> out = (Some a, err)"
      using hit entry by auto
    moreover have "n \<noteq> nm \<longrightarrow> fst out \<noteq> Some a"
      using hit others by auto
    moreover have "New_calls nm (calls w') = New_calls nm (calls w)"
      using hit by simp
    ultimately show ?thesis by blast
  next
    case miss
    from miss entry have neq: "n \<noteq> nm"
      by (auto simp: map_lookup_def)
    from New_allocatesD [OF contract miss(5)] have fresh: "length (heap w) \<le> b"
      by simp
    with live have ba: "b \<noteq> a" by simp
    have len: "length (heap w') = length h1" using miss by simp
    have ok': "registry_ok r' (heap w')"
      unfolding registry_ok_def
    proof (intro allI impI)
      fix k info
      assume k: "map_lookup (sessions r') k = Some info"
      show "\<exists>x. s info = Some x \<and> x < length (heap w')"
      proof (cases "k = n")
        case True
        with k miss show ?thesis by (auto simp: map_lookup_def)
      next
        case False
        with k miss have "map_lookup (sessions r) k = Some info"
          by (simp add: map_lookup_def)
        with ok obtain x where "s info = Some x" "x < length (heap w)"
          using registry_okD by blast
        with fresh miss(6) len show ?thesis by simp
      qed
    qed
    have entry': "map_lookup (sessions r') nm = Some \<lparr>s = Some a, e = err\<rparr>"
      using miss neq entry by (simp add: map_lookup_def)
    have others': "\<forall>k info. k \<noteq> nm \<and> map_lookup (sessions r') k = Some info \<longrightarrow> s info \<noteq> Some a"
    proof (intro allI impI)
      fix k info
      assume k: "k \<noteq> nm \<and> map_lookup (sessions r') k = Some info"
      show "s info \<noteq> Some a"
      proof (cases "k = n")
        case True
        with k miss ba show ?thesis by (auto simp: map_lookup_def)
      next
        case False
        with k miss have "map_lookup (sessions r) k = Some info"
          by (simp add: map_lookup_def)
        with k others show ?thesis by blast
      qed
    qed
    have "cached nm a err r' (heap w')"
      using ok' entry' others' by (simp add: cached_def)
    moreover have "fst out \<noteq> Some a" using miss ba by simp
    moreover have "New_calls nm (calls w') = New_calls nm (calls w)"
      using miss neq by (simp add: is_New_for_def)
    ultimately show ?thesis using neq by blast
  qed
qed

lemma cached_run:
  assumes contract: "New_allocates env"
      and valid: "isCookieNameValid env nm"
  shows "cached nm a err r (heap w) \<Longrightarrow> Gets env r ops w = Inr (outs, r', w') \<Longrightarrow>
         length outs = length ops \<and>
         (\<forall>(op, out) \<in> set (zip ops outs).
            (snd op = nm \<longrightarrow> out = (Some a, err)) \<and>
            (isCookieNameValid env (snd op) \<and> snd op \<noteq> nm \<longrightarrow> fst out \<noteq> Some a)) \<and>
         cached nm a err r' (heap w') \<and>
         New_calls nm (calls w') = New_calls nm (calls w)"
proof (induction ops arbitrary: r w outs)
  case Nil
  then show ?case by simp
next
  case (Cons op ops)
  obtain st n where op: "op = (st, n)" by (cases op)
  from Cons.prems(2) op obtain out r1 w1 outs1 where
      get: "Registry_Get env r st n w = (Inr out, r1, w1)"
    and rest: "Gets env r1 ops w1 = Inr (outs1, r', w')"
    and outs: "outs = out # outs1"
    by (auto split: prod.splits sum.splits)
  note step = cached_step [OF contract valid Cons.prems(1) get]
  from step have inv1: "cached nm a err r1 (heap w1)" by blast
  note ih = Cons.IH [OF inv1 rest]
  show ?case
    using step ih by (auto simp: op outs)
qed

text \<open>
  C1. Let the stores keep their contract (\<^verbatim>\<open>New\<close> returns a newly made session),
  let the registry have an allocated map with live sessions, and let \<open>nm\<close> be a valid
  name the registry has no entry for. In a run of lookups that starts with
  \<^verbatim>\<open>Get(sto, nm)\<close>: the first lookup returns the pair \<^verbatim>\<open>store.New\<close> returned, a
  session that is not nil, and the registry records the pair; every later lookup of
  \<open>nm\<close>, with any store, returns the same session and the same error, be it nil or
  not; the names registered before and every later lookup of another valid name have
  another session; and the run calls \<^verbatim>\<open>store.New\<close> for \<open>nm\<close> exactly once.
\<close>

theorem Registry_Get_caches:
  assumes contract: "New_allocates env"
      and ok: "registry_ok r (heap w)"
      and valid: "isCookieNameValid env nm"
      and first: "sessions r = Some m" "m nm = None"
      and run: "Gets env r ((Some sto, nm) # ops) w = Inr (outs, r', w')"
  shows "hd outs = fst (Store_New env sto (ctx r) nm (heap w)) \<and>
         (\<exists>a. fst (hd outs) = Some a) \<and>
         (\<forall>k info. m k = Some info \<longrightarrow> s info \<noteq> fst (hd outs)) \<and>
         map_lookup (sessions r') nm = Some \<lparr>s = fst (hd outs), e = snd (hd outs)\<rparr> \<and>
         length outs = Suc (length ops) \<and>
         (\<forall>(op, out) \<in> set (zip ops (tl outs)).
            (snd op = nm \<longrightarrow> out = hd outs) \<and>
            (isCookieNameValid env (snd op) \<and> snd op \<noteq> nm \<longrightarrow> fst out \<noteq> fst (hd outs))) \<and>
         New_calls nm (calls w') = Suc (New_calls nm (calls w))"
proof -
  from run obtain out r1 w1 outs1 where
      get: "Registry_Get env r (Some sto) nm w = (Inr out, r1, w1)"
    and rest: "Gets env r1 ops w1 = Inr (outs1, r', w')"
    and outs: "outs = out # outs1"
    by (auto split: prod.splits sum.splits)
  from first have none: "map_lookup (sessions r) nm = None"
    by (simp add: map_lookup_def)
  from Get_returns_cases [OF get] valid none first obtain a err h1 where
      new: "Store_New env sto (ctx r) nm (heap w) = ((Some a, err), h1)"
    and a: "a < length h1"
    and out: "out = (Some a, err)"
    and r1: "r1 = r\<lparr>sessions := Some (m(nm \<mapsto> \<lparr>s = Some a, e = err\<rparr>))\<rparr>"
    and w1: "w1 = \<lparr>heap = h1[a := (h1 ! a)\<lparr>name := nm, store := Some sto\<rparr>],
                   calls = calls w @ [CallNew sto (ctx r) nm]\<rparr>"
    by auto
  from New_allocatesD [OF contract new] have fresh: "length (heap w) \<le> a"
    by simp
  have old: "\<exists>x. s info = Some x \<and> x < length (heap w)"
    if "k \<noteq> nm" "map_lookup (sessions r1) k = Some info" for k info
  proof -
    from that r1 first have "map_lookup (sessions r) k = Some info"
      by (simp add: map_lookup_def)
    with ok show ?thesis by (rule registry_okD)
  qed
  have ok1: "registry_ok r1 (heap w1)"
    unfolding registry_ok_def
  proof (intro allI impI)
    fix k info
    assume k: "map_lookup (sessions r1) k = Some info"
    show "\<exists>x. s info = Some x \<and> x < length (heap w1)"
    proof (cases "k = nm")
      case True
      with k r1 w1 a show ?thesis by (auto simp: map_lookup_def)
    next
      case False
      from old [OF False k] fresh a w1 show ?thesis by auto
    qed
  qed
  have inv: "cached nm a err r1 (heap w1)"
    unfolding cached_def
  proof (intro conjI allI impI)
    show "registry_ok r1 (heap w1)" by (rule ok1)
    show "map_lookup (sessions r1) nm = Some \<lparr>s = Some a, e = err\<rparr>"
      using r1 by (simp add: map_lookup_def)
  next
    fix k info
    assume "k \<noteq> nm \<and> map_lookup (sessions r1) k = Some info"
    then obtain x where "s info = Some x" "x < length (heap w)"
      using old by blast
    with fresh show "s info \<noteq> Some a" by simp
  qed
  note later = cached_run [OF contract valid inv rest]
  from later have entry: "map_lookup (sessions r') nm = Some \<lparr>s = Some a, e = err\<rparr>"
    by (simp add: cached_def)
  have calls1: "New_calls nm (calls w1) = Suc (New_calls nm (calls w))"
    using w1 by (simp add: is_New_for_def)
  have earlier: "\<forall>k info. m k = Some info \<longrightarrow> s info \<noteq> Some a"
  proof (intro allI impI)
    fix k info
    assume "m k = Some info"
    with first have "map_lookup (sessions r) k = Some info"
      by (simp add: map_lookup_def)
    from registry_okD [OF ok this] fresh show "s info \<noteq> Some a" by auto
  qed
  show ?thesis
    using later entry calls1 new earlier by (simp add: outs out)
qed

text \<open>
  Store 2 returns its session with an error: the error is returned again by the later
  lookups of the name, one of them with a nil store.
\<close>

theorem Registry_Get_caches_witness:
  "(let outs = fst (projr (Gets example_env example_registry ((Some 2, ''sid'') # example_lookups)
                             \<lparr>heap = [], calls = []\<rparr>))
    in hd outs = (Some 0, Some (StoreError ''securecookie: the value is not valid'')) \<and>
       outs ! 2 = hd outs \<and> outs ! 3 = hd outs \<and> fst (outs ! 1) = Some 1)"
proof -
  let ?G = "Gets example_env example_registry ((Some 2, ''sid'') # example_lookups)
              \<lparr>heap = [], calls = []\<rparr>"
  have run: "?G = Inr (fst (projr ?G), fst (snd (projr ?G)), snd (snd (projr ?G)))"
    by (simp add: example_defs)
  have ok: "registry_ok example_registry (heap \<lparr>heap = [], calls = []\<rparr>)"
    by (simp add: registry_ok_def example_registry_def map_lookup_def)
  have first: "sessions example_registry = Some Map.empty" "Map.empty ''sid'' = None"
    by (simp_all add: example_registry_def)
  from Registry_Get_caches [OF example_env_allocates ok example_name_valid first run]
  show ?thesis
    by (simp add: example_defs)
qed

section \<open>Registry.Save\<close>

lemma map_filter_memI:
  "x \<in> set xs \<Longrightarrow> f x = Some y \<Longrightarrow> y \<in> set (List.map_filter f xs)"
  by (force simp: List.map_filter_def)

lemma save_loop_eq:
  assumes pure: "Save_pure env"
  shows "registry_ok r (heap w) \<Longrightarrow>
         save_loop env r order errMulti w =
           (Inr (errMulti @ map Some (List.map_filter (save_error env r (heap w)) order)),
            \<lparr>heap = heap w, calls = calls w @ List.map_filter (save_call r (heap w)) order\<rparr>)"
proof (induction order arbitrary: errMulti w)
  case Nil
  then show ?case by simp
next
  case (Cons nm rest)
  show ?case
  proof (cases "map_lookup (sessions r) nm")
    case None
    with Cons show ?thesis
      by (simp add: save_error_def save_call_def)
  next
    case (Some info)
    from registry_okD [OF Cons.prems Some] obtain a where
      a: "s info = Some a" "a < length (heap w)" by blast
    then have d: "deref (heap w) a = Some (heap w ! a)"
      by (simp add: deref_def)
    show ?thesis
    proof (cases "store (heap w ! a)")
      case None
      with Some a d Cons show ?thesis
        by (simp add: save_error_def save_call_def)
    next
      case st: (Some st)
      obtain err h' where sv: "Store_Save env st (ctx r) a (heap w) = (err, h')"
        by (cases "Store_Save env st (ctx r) a (heap w)")
      with pure have h': "h' = heap w"
        unfolding Save_pure_def by (metis snd_conv)
      let ?w' = "\<lparr>heap = heap w, calls = calls w @ [CallSave st (ctx r) a]\<rparr>"
      have ok': "registry_ok r (heap ?w')" using Cons.prems by simp
      note ih = Cons.IH [OF ok']
      show ?thesis
        using Some a d st sv h' ih
        by (cases err) (simp_all add: save_error_def save_call_def)
    qed
  qed
qed

text \<open>
  C2. Let the stores' \<^verbatim>\<open>Save\<close> leave the session objects as they are, let the
  entries of the registry point to live sessions, and let \<open>order\<close> list the registered
  names. Then \<^verbatim>\<open>Registry.Save\<close> returns, without a panic: nil when no name has an
  error, otherwise the \<^verbatim>\<open>MultiError\<close> of the errors of all names, in the order of
  the visit; and the calls of \<^verbatim>\<open>store.Save\<close> it makes are those of all names whose
  session has a store. So for every registered name the session is visited: a nil store
  gives the "missing store" error of the name, any other store is called, and its error,
  if any, is recorded under the name, whatever happened to the names before.
\<close>

theorem Registry_Save_visits_all:
  assumes pure: "Save_pure env"
      and ok: "registry_ok r (heap w)"
      and keys: "sessions r = Some m" "set order = dom m"
  shows "Registry_Save env r order w =
           (Inr (if List.map_filter (save_error env r (heap w)) order = [] then None
                 else Some (MultiError (map Some (List.map_filter (save_error env r (heap w)) order)))),
            \<lparr>heap = heap w, calls = calls w @ List.map_filter (save_call r (heap w)) order\<rparr>) \<and>
         (\<forall>nm info. m nm = Some info \<longrightarrow>
            (\<exists>a session. s info = Some a \<and> deref (heap w) a = Some session \<and>
               (case store session of
                  None \<Rightarrow> MissingStore nm \<in> set (List.map_filter (save_error env r (heap w)) order)
                | Some st \<Rightarrow>
                    CallSave st (ctx r) a \<in> set (List.map_filter (save_call r (heap w)) order) \<and>
                    (\<forall>x. fst (Store_Save env st (ctx r) a (heap w)) = Some x \<longrightarrow>
                       SaveError nm x \<in> set (List.map_filter (save_error env r (heap w)) order)))))"
proof (intro conjI allI impI)
  show "Registry_Save env r order w =
           (Inr (if List.map_filter (save_error env r (heap w)) order = [] then None
                 else Some (MultiError (map Some (List.map_filter (save_error env r (heap w)) order)))),
            \<lparr>heap = heap w, calls = calls w @ List.map_filter (save_call r (heap w)) order\<rparr>)"
    by (simp add: Registry_Save_def save_loop_eq [OF pure ok])
next
  fix nm info
  assume entry: "m nm = Some info"
  with keys have mem: "nm \<in> set order" by auto
  from entry keys have look: "map_lookup (sessions r) nm = Some info"
    by (simp add: map_lookup_def)
  from registry_okD [OF ok look] obtain a where a: "s info = Some a" "a < length (heap w)"
    by blast
  then have d: "deref (heap w) a = Some (heap w ! a)" by (simp add: deref_def)
  have "case store (heap w ! a) of
          None \<Rightarrow> MissingStore nm \<in> set (List.map_filter (save_error env r (heap w)) order)
        | Some st \<Rightarrow>
            CallSave st (ctx r) a \<in> set (List.map_filter (save_call r (heap w)) order) \<and>
            (\<forall>x. fst (Store_Save env st (ctx r) a (heap w)) = Some x \<longrightarrow>
               SaveError nm x \<in> set (List.map_filter (save_error env r (heap w)) order))"
  proof (cases "store (heap w ! a)")
    case None
    with look a d have "save_error env r (heap w) nm = Some (MissingStore nm)"
      by (simp add: save_error_def)
    with mem None show ?thesis
      by (simp add: map_filter_memI)
  next
    case (Some st)
    with look a d have c: "save_call r (heap w) nm = Some (CallSave st (ctx r) a)"
      by (simp add: save_call_def)
    have e: "save_error env r (heap w) nm = Some (SaveError nm x)"
      if "fst (Store_Save env st (ctx r) a (heap w)) = Some x" for x
      using that look a d Some by (simp add: save_error_def)
    from mem c e Some show ?thesis
      by (simp add: map_filter_memI)
  qed
  with a d show "\<exists>a session. s info = Some a \<and> deref (heap w) a = Some session \<and>
               (case store session of
                  None \<Rightarrow> MissingStore nm \<in> set (List.map_filter (save_error env r (heap w)) order)
                | Some st \<Rightarrow>
                    CallSave st (ctx r) a \<in> set (List.map_filter (save_call r (heap w)) order) \<and>
                    (\<forall>x. fst (Store_Save env st (ctx r) a (heap w)) = Some x \<longrightarrow>
                       SaveError nm x \<in> set (List.map_filter (save_error env r (heap w)) order)))"
    by blast
qed

text \<open>Three sessions; the store of the second fails, the other two are still saved.\<close>

lemma example_env_Save_pure: "Save_pure example_env"
  by (simp add: Save_pure_def example_env_def example_Save_def)

theorem Registry_Save_visits_all_witness:
  "Registry_Save example_env example_registry3 [''a'', ''b'', ''c''] example_world3 =
     (Inr (Some (MultiError [Some (SaveError ''b'' (StoreError ''disk full''))])),
      \<lparr>heap = heap example_world3,
       calls = [CallSave 1 (Some 1) 0, CallSave 2 (Some 1) 1, CallSave 1 (Some 1) 2]\<rparr>)"
proof -
  have ok: "registry_ok example_registry3 (heap example_world3)"
    by (auto simp: registry_ok_def example_registry3_def example_world3_def map_lookup_def
             split: if_splits)
  have keys: "sessions example_registry3 =
      Some [''a'' \<mapsto> \<lparr>s = Some 0, e = None\<rparr>, ''b'' \<mapsto> \<lparr>s = Some 1, e = None\<rparr>,
            ''c'' \<mapsto> \<lparr>s = Some 2, e = None\<rparr>]"
    "set [''a'', ''b'', ''c''] =
      dom [''a'' \<mapsto> \<lparr>s = Some 0, e = None\<rparr>, ''b'' \<mapsto> \<lparr>s = Some 1, e = None\<rparr>,
           ''c'' \<mapsto> \<lparr>s = Some 2, e = None\<rparr>]"
    by (auto simp: example_registry3_def)
  have errs: "List.map_filter (save_error example_env example_registry3 (heap example_world3))
        [''a'', ''b'', ''c''] = [SaveError ''b'' (StoreError ''disk full'')]"
    by (simp add: save_error_def example_registry3_def example_world3_def map_lookup_def deref_def
          example_env_def example_Save_def)
  have cs: "List.map_filter (save_call example_registry3 (heap example_world3))
        [''a'', ''b'', ''c''] = [CallSave 1 (Some 1) 0, CallSave 2 (Some 1) 1, CallSave 1 (Some 1) 2]"
    by (simp add: save_call_def example_registry3_def example_world3_def map_lookup_def deref_def)
  have c0: "calls example_world3 = []" by (simp add: example_world3_def)
  from Registry_Save_visits_all [OF example_env_Save_pure ok keys]
  show ?thesis unfolding errs cs c0 by simp
qed

section \<open>The registry pool\<close>

text \<open>
  C3, as stated, after a request that looked up one session: \<^verbatim>\<open>close\<close> puts the
  registry into the pool with its context cleared and with the session entry still in
  its map.
\<close>

theorem close_keeps_sessions_counterexample:
  "map_sum id (\<lambda>g. (registryPool g, ctx (registries g ! 0),
                     map_lookup (sessions (registries g ! 0)) ''sid''))
     (close 0 example_pkg)
   = Inr ([0], None, Some \<lparr>s = Some 0, e = None\<rparr>)"
  by (simp add: close_def registry_write_def Pool_Put_def example_pkg_def map_lookup_def)

lemma close_eq:
  assumes "r < length (registries g)"
  shows "close r g =
           Inr (g\<lparr>registries := (registries g)[r := (registries g ! r)\<lparr>ctx := None\<rparr>],
                  registryPool := r # registryPool g\<rparr>)"
  using assms by (simp add: close_def registry_write_def Pool_Put_def)

lemma Pool_Get_valid:
  assumes "pool_ok g" and "Pool_Get pick g = (r, g1)"
  shows "r < length (registries g1) \<and> attached g1 = attached g"
proof (cases pick)
  case None
  with assms show ?thesis by (auto simp: Pool_Get_def Pool_New_def)
next
  case (Some i)
  show ?thesis
  proof (cases "i < length (registryPool g)")
    case True
    with assms(1) have "registryPool g ! i < length (registries g)"
      by (simp add: pool_ok_def list_all_length)
    with True Some assms(2) show ?thesis by (auto simp: Pool_Get_def)
  next
    case False
    with Some assms(2) show ?thesis by (auto simp: Pool_Get_def Pool_New_def)
  qed
qed

lemma GetRegistry_fresh:
  assumes "pool_ok g" and "attached g c = None"
  shows "\<exists>r g2. GetRegistry c pick g = Inr (r, g2) \<and> r < length (registries g2) \<and>
                 registries g2 ! r = \<lparr>ctx = c, sessions = Some Map.empty\<rparr> \<and>
                 Get g2 c = Some r"
proof -
  obtain r g1 where pg: "Pool_Get pick g = (r, g1)" by (cases "Pool_Get pick g")
  from Pool_Get_valid [OF assms(1) pg] have r: "r < length (registries g1)" by simp
  with pg assms(2) show ?thesis
    by (simp add: GetRegistry_def Get_def Set_def registry_write_def)
qed

text \<open>
  C3, amended. \<^verbatim>\<open>close\<close> clears the context reference of the registry, leaves its
  session map as it is and puts the registry into the pool. \<^verbatim>\<open>GetRegistry\<close>, for
  a request context with no registry attached, sets the context and a new, empty session
  map on the registry it takes from the pool, whichever the pool hands out, and attaches
  it: the registry of the new request has no entry of an earlier request.
\<close>

theorem close_then_GetRegistry:
  assumes "r < length (registries g)" and "pool_ok g" and "attached g c = None"
  shows "\<exists>g1. close r g = Inr g1 \<and>
           registryPool g1 = r # registryPool g \<and>
           ctx (registries g1 ! r) = None \<and>
           sessions (registries g1 ! r) = sessions (registries g ! r) \<and>
           (\<forall>pick. \<exists>r' g2. GetRegistry c pick g1 = Inr (r', g2) \<and>
                      r' < length (registries g2) \<and>
                      registries g2 ! r' = \<lparr>ctx = c, sessions = Some Map.empty\<rparr> \<and>
                      Get g2 c = Some r')"
proof -
  let ?g1 = "g\<lparr>registries := (registries g)[r := (registries g ! r)\<lparr>ctx := None\<rparr>],
               registryPool := r # registryPool g\<rparr>"
  have c: "close r g = Inr ?g1" using assms(1) by (rule close_eq)
  have ok1: "pool_ok ?g1" using assms(1,2) by (simp add: pool_ok_def)
  have at1: "attached ?g1 c = None" using assms(3) by simp
  have "\<forall>pick. \<exists>r' g2. GetRegistry c pick ?g1 = Inr (r', g2) \<and>
                      r' < length (registries g2) \<and>
                      registries g2 ! r' = \<lparr>ctx = c, sessions = Some Map.empty\<rparr> \<and>
                      Get g2 c = Some r'"
    using GetRegistry_fresh [OF ok1 at1] by blast
  moreover have "ctx (registries ?g1 ! r) = None"
    "sessions (registries ?g1 ! r) = sessions (registries g ! r)"
    "registryPool ?g1 = r # registryPool g"
    using assms(1) by simp_all
  ultimately show ?thesis using c by blast
qed

theorem close_then_GetRegistry_witness:
  "(case GetRegistry (Some 8) (Some 0) (projr (close 0 example_pkg)) of
      Inl f \<Rightarrow> False
    | Inr (r, g) \<Rightarrow>
        registries g ! r = \<lparr>ctx = Some 8, sessions = Some Map.empty\<rparr> \<and> Get g (Some 8) = Some r)"
proof -
  have a: "0 < length (registries example_pkg)" "pool_ok example_pkg"
    "attached example_pkg (Some 8) = None"
    by (simp_all add: example_pkg_def pool_ok_def)
  from close_then_GetRegistry [OF a] obtain g1 r' g2 where
    "close 0 example_pkg = Inr g1"
    "GetRegistry (Some 8) (Some 0) g1 = Inr (r', g2)"
    "registries g2 ! r' = \<lparr>ctx = Some 8, sessions = Some Map.empty\<rparr>"
    "Get g2 (Some 8) = Some r'"
    by blast
  then show ?thesis by simp
qed

end
